theory Spec2Isabelle
  imports Complex_Main
begin

section \<open>Arrays\<close>

text \<open>
  A NumPy array of rank 2 is a list of rows, an array of rank 4 a list (time) of lists
  (channel) of such planes. The shape of an array is read off the nested lists; an axis
  that follows an empty axis reads as 0.
\<close>

type_synonym 'a plane = "'a list list"
type_synonym 'a stack = "'a list list list list"

definition plane_shape :: "'a plane \<Rightarrow> nat \<times> nat" where
  "plane_shape m = (length m, case m of [] \<Rightarrow> 0 | r # _ \<Rightarrow> length r)"

definition shape :: "'a stack \<Rightarrow> nat \<times> nat \<times> nat \<times> nat" where
  "shape a =
     (length a,
      case a of [] \<Rightarrow> 0 | x # _ \<Rightarrow> length x,
      case a of [] \<Rightarrow> 0 | x # _ \<Rightarrow> (case x of [] \<Rightarrow> 0 | p # _ \<Rightarrow> fst (plane_shape p)),
      case a of [] \<Rightarrow> 0 | x # _ \<Rightarrow> (case x of [] \<Rightarrow> 0 | p # _ \<Rightarrow> snd (plane_shape p)))"

text \<open>The array \<open>m\<close> has shape \<open>[H, W]\<close>; the array \<open>a\<close> has shape \<open>[T, D, H, W]\<close>.\<close>

definition shape2 :: "nat \<Rightarrow> nat \<Rightarrow> 'a plane \<Rightarrow> bool" where
  "shape2 H W m \<longleftrightarrow> length m = H \<and> list_all (\<lambda>r. length r = W) m"

definition shape4 :: "nat \<Rightarrow> nat \<Rightarrow> nat \<Rightarrow> nat \<Rightarrow> 'a stack \<Rightarrow> bool" where
  "shape4 T D H W a \<longleftrightarrow>
     length a = T \<and> list_all (\<lambda>x. length x = D \<and> list_all (shape2 H W) x) a"

text \<open>
  Python's \<open>xs[a:b]\<close>: a negative bound counts from the end, and both bounds are clamped
  to the list.
\<close>

definition slice_bound :: "nat \<Rightarrow> int \<Rightarrow> nat" where
  "slice_bound n i = (if i < 0 then nat (int n + i) else min n (nat i))"

definition py_slice :: "int \<Rightarrow> int \<Rightarrow> 'a list \<Rightarrow> 'a list" where
  "py_slice a b xs =
     (let lo = slice_bound (length xs) a; hi = slice_bound (length xs) b
      in take (hi - lo) (drop lo xs))"

text \<open>\<open>m[a:b, c:d]\<close> on a plane and \<open>image_stack[:, :, a:b, c:d]\<close> on a stack.\<close>

definition slice2 :: "int \<Rightarrow> int \<Rightarrow> int \<Rightarrow> int \<Rightarrow> 'a plane \<Rightarrow> 'a plane" where
  "slice2 a b c d m = map (py_slice c d) (py_slice a b m)"

definition slice4 :: "int \<Rightarrow> int \<Rightarrow> int \<Rightarrow> int \<Rightarrow> 'a stack \<Rightarrow> 'a stack" where
  "slice4 a b c d img = map (map (\<lambda>p. map (py_slice c d) (py_slice a b p))) img"

text \<open>\<open>m[a:b, :]\<close>, \<open>m[:, a:b]\<close>, \<open>image_stack[:, :, a:b, :]\<close> and \<open>image_stack[:, :, :, a:b]\<close>.\<close>

definition slice_rows :: "int \<Rightarrow> int \<Rightarrow> 'a plane \<Rightarrow> 'a plane" where
  "slice_rows a b m = py_slice a b m"

definition slice_cols :: "int \<Rightarrow> int \<Rightarrow> 'a plane \<Rightarrow> 'a plane" where
  "slice_cols a b m = map (py_slice a b) m"

definition slice_axis2 :: "int \<Rightarrow> int \<Rightarrow> 'a stack \<Rightarrow> 'a stack" where
  "slice_axis2 a b img = map (map (py_slice a b)) img"

definition slice_axis3 :: "int \<Rightarrow> int \<Rightarrow> 'a stack \<Rightarrow> 'a stack" where
  "slice_axis3 a b img = map (map (map (py_slice a b))) img"

text \<open>
  \<open>np.pad\<close> with its default mode (constant, zero): \<open>np.pad(m, (padding, (0, 0)))\<close>,
  \<open>np.pad(m, ((0, 0), padding))\<close> and the same two on the spatial axes of a stack. The
  widths are those of one axis, before and after. They are never negative where the
  program calls \<open>np.pad\<close>.
\<close>

definition pad_rows :: "int \<times> int \<Rightarrow> 'a::zero plane \<Rightarrow> 'a plane" where
  "pad_rows padding m =
     (let W = snd (plane_shape m)
      in replicate (nat (fst padding)) (replicate W 0) @ m @
         replicate (nat (snd padding)) (replicate W 0))"

definition pad_cols :: "int \<times> int \<Rightarrow> 'a::zero plane \<Rightarrow> 'a plane" where
  "pad_cols padding m =
     map (\<lambda>r. replicate (nat (fst padding)) 0 @ r @ replicate (nat (snd padding)) 0) m"

definition pad_axis2 :: "int \<times> int \<Rightarrow> 'a::zero stack \<Rightarrow> 'a stack" where
  "pad_axis2 padding img = map (map (pad_rows padding)) img"

definition pad_axis3 :: "int \<times> int \<Rightarrow> 'a::zero stack \<Rightarrow> 'a stack" where
  "pad_axis3 padding img = map (map (pad_cols padding)) img"

text \<open>
  \<open>np.rot90(m, k)\<close> as NumPy computes it: \<open>k\<close> is taken modulo 4; one quarter turn is the
  transpose of the array flipped along its second axis, two are both flips, three are the
  flip along the second axis of the transpose. \<open>np.rot90(image_stack, k, [2, 3])\<close> turns
  every plane.
\<close>

definition rot90 :: "'a plane \<Rightarrow> nat \<Rightarrow> 'a plane" where
  "rot90 m k =
     (let k = k mod 4
      in if k = 0 then m
         else if k = 2 then map rev (rev m)
         else if k = 1 then transpose (map rev m)
         else map rev (transpose m))"

definition rot90_stack :: "'a stack \<Rightarrow> nat \<Rightarrow> 'a stack" where
  "rot90_stack img k = map (map (\<lambda>p. rot90 p k)) img"

section \<open>The transform\<close>

text \<open>
  \<open>random_crop\<close>. The two calls of \<open>np.random.randint\<close> are the arguments \<open>h\<close> and \<open>w\<close>:
  \<open>randint(low, high)\<close> returns some \<open>h\<close> with \<open>low \<le> h < high\<close>, see \<open>crop_center\<close>.
  \<open>np.floor\<close> and \<open>np.ceil\<close> of an integer are that integer.
\<close>

definition crop_center :: "int \<Rightarrow> nat \<Rightarrow> int \<Rightarrow> bool" where
  "crop_center image_size H h \<longleftrightarrow> image_size \<le> h \<and> h < int H - image_size div 2"

definition random_crop ::
  "int \<Rightarrow> int \<Rightarrow> 'a stack \<Rightarrow> 'b plane \<Rightarrow> int \<Rightarrow> 'a stack \<times> 'b plane" where
  "random_crop h w image_stack msk image_size =
     (let (T, D, H, W) = shape image_stack
      in if int H - image_size div 2 \<le> image_size then (image_stack, msk)
         else if int W - image_size div 2 \<le> image_size then (image_stack, msk)
         else (slice4 (h - image_size div 2) (h + image_size div 2)
                      (w - image_size div 2) (w + image_size div 2) image_stack,
               slice2 (h - image_size div 2) (h + image_size div 2)
                      (w - image_size div 2) (w + image_size div 2) msk))"

text \<open>
  \<open>crop_or_pad_to_size\<close>, with its helpers \<open>f\<close> and \<open>c\<close>. \<open>-c(hpad) // 2\<close> negates before it
  divides, and \<open>//\<close> rounds down as \<open>div\<close> does; \<open>hpad / 2\<close> is the exact half.
\<close>

definition f_floor :: "real \<Rightarrow> int" where
  "f_floor x = \<lfloor>x\<rfloor>"

definition c_ceil :: "real \<Rightarrow> int" where
  "c_ceil x = \<lceil>x\<rceil>"

definition crop_or_pad_to_size ::
  "'a::zero stack \<Rightarrow> 'b::zero plane \<Rightarrow> int \<Rightarrow> 'a stack \<times> 'b plane" where
  "crop_or_pad_to_size image_stack msk image_size =
     (let (T, D, H, W) = shape image_stack;
          hpad = image_size - int H;
          wpad = image_size - int W;
          (image_stack, msk) =
            (if hpad < 0
             then (slice_axis2 ((- c_ceil (of_int hpad)) div 2) (f_floor (of_int hpad) div 2)
                     image_stack,
                   slice_rows ((- c_ceil (of_int hpad)) div 2) (f_floor (of_int hpad) div 2)
                     msk)
             else (image_stack, msk));
          (image_stack, msk) =
            (if wpad < 0
             then (slice_axis3 ((- c_ceil (of_int wpad)) div 2) (f_floor (of_int wpad) div 2)
                     image_stack,
                   slice_cols ((- c_ceil (of_int wpad)) div 2) (f_floor (of_int wpad) div 2)
                     msk)
             else (image_stack, msk));
          (image_stack, msk) =
            (if hpad > 0
             then (let padding = (f_floor (of_int hpad / 2), c_ceil (of_int hpad / 2))
                   in (pad_axis2 padding image_stack, pad_rows padding msk))
             else (image_stack, msk));
          (image_stack, msk) =
            (if wpad > 0
             then (let padding = (f_floor (of_int wpad / 2), c_ceil (of_int wpad / 2))
                   in (pad_axis3 padding image_stack, pad_cols padding msk))
             else (image_stack, msk))
      in (image_stack, msk))"

text \<open>
  The spec's crop-or-pad of one axis to the size \<open>S\<close>, with the filler \<open>z\<close>: a longer
  axis loses \<open>floor(d/2)\<close> entries at its leading edge and the other \<open>ceil(d/2)\<close> at its
  trailing edge; a shorter one gains \<open>floor(d/2)\<close> fillers before and \<open>ceil(d/2)\<close> after.
\<close>

definition fit :: "nat \<Rightarrow> 'a \<Rightarrow> 'a list \<Rightarrow> 'a list" where
  "fit S z xs =
     (let n = length xs
      in if S < n then take S (drop ((n - S) div 2) xs)
         else replicate ((S - n) div 2) z @ xs @ replicate ((S - n + 1) div 2) z)"

definition fit_plane :: "nat \<Rightarrow> 'a::zero plane \<Rightarrow> 'a plane" where
  "fit_plane S p = map (fit S 0) (fit S (replicate (snd (plane_shape p)) 0) p)"

text \<open>
  The class \<open>EOTransformer\<close> and its method \<open>transform\<close>. The values the method draws
  from NumPy's random generator are its argument \<open>r\<close>: the two centres of \<open>random_crop\<close>,
  the number of quarter turns (one of 0, 1, 2, 3) and the two samples of
  \<open>np.random.normal(scale=0.01)\<close>. Pixel values are real numbers.
\<close>

record EOTransformer =
  self_spatial_encoder :: bool
  self_normalize :: bool
  self_image_size :: int

record draws =
  crop_h :: int
  crop_w :: int
  rot :: nat
  jitter_mean :: real
  jitter_std :: real

datatype py_error = IndexError | ZeroDivisionError | UnboundLocalError | RuntimeError | ValueError

text \<open>
  The image that \<open>transform\<close> returns has shape \<open>[T, D]\<close> without the spatial encoder and
  \<open>[T, D, H, W]\<close> with it; the mask is then the number \<open>-1\<close> or an array.
\<close>

datatype image_out = Vectors "real list list" | Stack "real stack"

datatype 'm mask_out = MaskConst int | MaskArray "'m plane"

fun map_image :: "(real \<Rightarrow> real) \<Rightarrow> image_out \<Rightarrow> image_out" where
  "map_image g (Vectors v) = Vectors (map (map g) v)"
| "map_image g (Stack a) = Stack (map (map (map (map g))) a)"

text \<open>
  \<open>image_stack[:, :, b]\<close> with a Boolean array \<open>b\<close>: of every plane the entries where \<open>b\<close>
  is true, in row-major order. NumPy raises IndexError unless \<open>b\<close> has the shape of the
  planes.
\<close>

definition bool_index :: "'a stack \<Rightarrow> bool plane \<Rightarrow> py_error + 'a list list list" where
  "bool_index image_stack b =
     (if list_all (list_all (\<lambda>p. map length p = map length b)) image_stack
      then Inr (map (map (\<lambda>p. map fst (filter snd (zip (concat p) (concat b))))) image_stack)
      else Inl IndexError)"

text \<open>\<open>.mean(2)\<close>: the mean of no entries is \<open>nan\<close> in NumPy and 0 here.\<close>

definition mean :: "real list \<Rightarrow> real" where
  "mean xs = sum_list xs / real (length xs)"

definition transform ::
  "EOTransformer \<Rightarrow> draws \<Rightarrow> real stack \<Rightarrow> 'm::{zero,ord} plane \<Rightarrow>
   py_error + (image_out \<times> 'm mask_out)" where
  "transform self r image_stack msk =
     (case
        (if \<not> self_spatial_encoder self
         then (case bool_index image_stack (map (map (\<lambda>m. 0 < m)) msk) of
                 Inl e \<Rightarrow> Inl e
               | Inr selected \<Rightarrow> Inr (Vectors (map (map mean) selected), MaskConst (- 1)))
         else (let (T, D, H, W) = shape image_stack;
                   (image_stack, msk) =
                     (if self_image_size self \<le> int H \<and> self_image_size self \<le> int W
                      then random_crop (crop_h r) (crop_w r) image_stack msk
                             (self_image_size self)
                      else (image_stack, msk));
                   (image_stack, msk) =
                     crop_or_pad_to_size image_stack msk (self_image_size self);
                   image_stack = rot90_stack image_stack (rot r);
                   msk = rot90 msk (rot r)
               in Inr (Stack image_stack, MaskArray msk)))
      of Inl e \<Rightarrow> Inl e
       | Inr (image_stack, msk) \<Rightarrow>
           (let image_stack = map_image (\<lambda>x. x * (1 / 10000)) image_stack;
                image_stack =
                  (if self_normalize self
                   then map_image (\<lambda>x. x / (0.1171 + jitter_std r))
                          (map_image (\<lambda>x. x - (0.1014 + jitter_mean r)) image_stack)
                   else image_stack)
            in Inr (image_stack, msk)))"

text \<open>
  The spec's reading of the transform. The mean of a plane over the pixels where the mask
  is positive; the window that the random crop cuts out; and the change of one plane by
  the spatial branch: the window (when the crop applies), the fit to the target size, the
  quarter turns.
\<close>

definition masked_pixels :: "nat \<Rightarrow> nat \<Rightarrow> 'm::{zero,ord} plane \<Rightarrow> (nat \<times> nat) set" where
  "masked_pixels H W msk = {(i, j). i < H \<and> j < W \<and> 0 < msk ! i ! j}"

definition masked_mean :: "nat \<Rightarrow> nat \<Rightarrow> real plane \<Rightarrow> 'm::{zero,ord} plane \<Rightarrow> real" where
  "masked_mean H W p msk =
     (\<Sum>(i, j) \<in> masked_pixels H W msk. p ! i ! j) / real (card (masked_pixels H W msk))"

definition window :: "nat \<Rightarrow> nat \<Rightarrow> nat \<Rightarrow> nat \<Rightarrow> 'a plane \<Rightarrow> 'a plane" where
  "window a b c d p = map (\<lambda>i. map (\<lambda>j. p ! i ! j) [c..<d]) [a..<b]"

definition crops :: "int \<Rightarrow> nat \<Rightarrow> nat \<Rightarrow> bool" where
  "crops S H W \<longleftrightarrow> S < int H - S div 2 \<and> S < int W - S div 2"

definition crop_plane :: "int \<Rightarrow> draws \<Rightarrow> nat \<Rightarrow> nat \<Rightarrow> 'a plane \<Rightarrow> 'a plane" where
  "crop_plane S r H W p =
     (if crops S H W
      then window (nat (crop_h r - S div 2)) (nat (crop_h r + S div 2))
             (nat (crop_w r - S div 2)) (nat (crop_w r + S div 2)) p
      else p)"

definition spatial_plane :: "int \<Rightarrow> draws \<Rightarrow> nat \<Rightarrow> nat \<Rightarrow> 'a::zero plane \<Rightarrow> 'a plane" where
  "spatial_plane S r H W p = rot90 (fit_plane (nat S) (crop_plane S r H W p)) (rot r)"

text \<open>What the last lines of \<open>transform\<close> make of one pixel value.\<close>

definition pixel_post :: "EOTransformer \<Rightarrow> draws \<Rightarrow> real \<Rightarrow> real" where
  "pixel_post self r x =
     (if self_normalize self
      then (x * (1 / 10000) - (0.1014 + jitter_mean r)) / (0.1171 + jitter_std r)
      else x * (1 / 10000))"

section \<open>The training loop\<close>

text \<open>
  One fold of \<open>main\<close>, from the reset of \<open>best_loss\<close> to the saving of the best model.
  What \<open>train_epoch\<close>, \<open>validation_epoch\<close> and \<open>metrics\<close> yield in an epoch is the
  argument \<open>run\<close>: the model and optimizer states after the epoch, its validation loss
  and its scores.
  Training does not read \<open>best_loss\<close>, \<open>patience_count\<close> or the copies of the best
  model, so \<open>run\<close> is a function of the epoch alone. Losses are real numbers;
  \<open>best_loss\<close> is \<open>None\<close> while it is \<open>np.inf\<close>. \<open>best_model\<close> and \<open>best_optimizer\<close>
  are variables of \<open>main\<close> and unbound until the first assignment; a later fold finds
  the values of the fold before.
\<close>

record args =
  max_epochs :: int
  patience :: int
  checkpoint_epoch :: int

record ('m, 'o, 's) epoch_result =
  model_state :: 'm
  optimizer_state :: 'o
  valid_loss :: real
  scores :: 's

text \<open>
  The dictionary that \<open>torch.save\<close> writes, and the two kinds of file names,
  \<open>epoch_{epoch}_model.pt\<close> and \<open>best_model_fold_{fold}.pt\<close> in the target directory.
\<close>

record ('m, 'o, 's) checkpoint =
  ck_model_state :: 'm
  ck_optimizer_state :: 'o
  ck_epoch :: nat
  ck_log :: "'s list"

datatype path = EpochModel nat | BestModelFold nat

record ('m, 'o, 's) fold_state =
  best_loss :: "real option"
  best_epoch :: nat
  best_model :: "'m option"
  best_optimizer :: "'o option"
  patience_count :: nat
  log_scores :: "'s list"
  files :: "path \<rightharpoonup> ('m, 'o, 's) checkpoint"
  early_stop :: bool

text \<open>\<open>valid_loss < best_loss\<close>.\<close>

definition below_best :: "real \<Rightarrow> real option \<Rightarrow> bool" where
  "below_best v b = (case b of None \<Rightarrow> True | Some x \<Rightarrow> v < x)"

text \<open>
  The body of \<open>for epoch in range(args.max_epochs)\<close>, over the epochs still to run. The
  \<open>break\<close> sets \<open>early_stop\<close> and leaves the loop. \<open>epoch % args.checkpoint_epoch\<close> raises
  when \<open>checkpoint_epoch\<close> is 0.
\<close>

fun train_epochs ::
  "args \<Rightarrow> (nat \<Rightarrow> ('m, 'o, 's) epoch_result) \<Rightarrow> nat list \<Rightarrow> ('m, 'o, 's) fold_state \<Rightarrow>
   py_error + ('m, 'o, 's) fold_state" where
  "train_epochs a run [] st = Inr st"
| "train_epochs a run (epoch # rest) st =
     (let e = run epoch;
          st = st\<lparr>log_scores := log_scores st @ [scores e]\<rparr>;
          st = (if below_best (valid_loss e) (best_loss st)
                then st\<lparr>best_loss := Some (valid_loss e),
                        best_epoch := epoch,
                        best_model := Some (model_state e),
                        best_optimizer := Some (optimizer_state e),
                        patience_count := 0\<rparr>
                else st\<lparr>patience_count := patience_count st + 1\<rparr>)
      in if int (patience_count st) = patience a then Inr (st\<lparr>early_stop := True\<rparr>)
         else if checkpoint_epoch a = 0 then Inl ZeroDivisionError
         else train_epochs a run rest
                (if int epoch mod checkpoint_epoch a = 0 \<and> epoch \<noteq> 0
                 then st\<lparr>files := (files st)(EpochModel epoch \<mapsto>
                          \<lparr>ck_model_state = model_state e,
                           ck_optimizer_state = optimizer_state e,
                           ck_epoch = epoch, ck_log = log_scores st\<rparr>)\<rparr>
                 else st))"

text \<open>
  A fold: the reset of the fold's variables, the loop, and the saving of the best model,
  which raises when \<open>best_model\<close> is unbound.
\<close>

definition reset_fold :: "('m, 'o, 's) fold_state \<Rightarrow> ('m, 'o, 's) fold_state" where
  "reset_fold st =
     st\<lparr>best_loss := None, best_epoch := 0, patience_count := 0, log_scores := [],
        early_stop := False\<rparr>"

definition train_fold ::
  "args \<Rightarrow> (nat \<Rightarrow> ('m, 'o, 's) epoch_result) \<Rightarrow> nat \<Rightarrow> ('m, 'o, 's) fold_state \<Rightarrow>
   py_error + ('m, 'o, 's) fold_state" where
  "train_fold a run fold_ix st =
     (case train_epochs a run [0..<nat (max_epochs a)] (reset_fold st) of
        Inl err \<Rightarrow> Inl err
      | Inr st \<Rightarrow>
          (case (best_model st, best_optimizer st) of
             (Some m, Some opt) \<Rightarrow>
               Inr (st\<lparr>files := (files st)(BestModelFold fold_ix \<mapsto>
                       \<lparr>ck_model_state = m, ck_optimizer_state = opt,
                        ck_epoch = best_epoch st, ck_log = log_scores st\<rparr>)\<rparr>)
           | _ \<Rightarrow> Inl UnboundLocalError))"

text \<open>
  The spec's words for the loop. An epoch improves when its validation loss is strictly
  below the loss of every epoch before it. The streak after an epoch is the number of
  epochs since the last improving one: 0 after an improving epoch, one more after any
  other. The fold stops at the first epoch whose streak is the patience.
\<close>

definition improving :: "(nat \<Rightarrow> real) \<Rightarrow> nat \<Rightarrow> bool" where
  "improving loss e \<longleftrightarrow> (\<forall>j < e. loss e < loss j)"

fun streak :: "(nat \<Rightarrow> real) \<Rightarrow> nat \<Rightarrow> nat" where
  "streak loss 0 = (if improving loss 0 then 0 else 1)"
| "streak loss (Suc e) = (if improving loss (Suc e) then 0 else Suc (streak loss e))"

definition stop_epoch :: "(nat \<Rightarrow> real) \<Rightarrow> int \<Rightarrow> nat \<Rightarrow> nat option" where
  "stop_epoch loss p n = find (\<lambda>e. int (streak loss e) = p) [0..<n]"

text \<open>
  The number of epochs that the fold runs, and the number of those that reach the lines
  of the periodic checkpoint: the epoch that stops the fold does not.
\<close>

definition epochs_run :: "(nat \<Rightarrow> real) \<Rightarrow> int \<Rightarrow> nat \<Rightarrow> nat" where
  "epochs_run loss p n = (case stop_epoch loss p n of None \<Rightarrow> n | Some s \<Rightarrow> Suc s)"

definition epochs_checkpointed :: "(nat \<Rightarrow> real) \<Rightarrow> int \<Rightarrow> nat \<Rightarrow> nat" where
  "epochs_checkpointed loss p n = (case stop_epoch loss p n of None \<Rightarrow> n | Some s \<Rightarrow> s)"

text \<open>
  The epoch \<open>e\<close> ends a run of exactly \<open>p\<close> consecutive epochs that do not improve, the
  epoch before the run being an improving one.
\<close>

definition ends_run :: "(nat \<Rightarrow> real) \<Rightarrow> nat \<Rightarrow> nat \<Rightarrow> bool" where
  "ends_run loss p e \<longleftrightarrow>
     p \<le> e \<and> improving loss (e - p) \<and> (\<forall>i. e - p < i \<and> i \<le> e \<longrightarrow> \<not> improving loss i)"

text \<open>The last improving epoch among the first \<open>m\<close> epochs.\<close>

fun last_best :: "(nat \<Rightarrow> real) \<Rightarrow> nat \<Rightarrow> nat" where
  "last_best loss 0 = 0"
| "last_best loss (Suc k) = (if improving loss k then k else last_best loss k)"

text \<open>The dictionary saved for the epoch \<open>e\<close>, the log holding the scores up to it.\<close>

definition checkpoint_of :: "(nat \<Rightarrow> ('m, 'o, 's) epoch_result) \<Rightarrow> nat \<Rightarrow> nat \<Rightarrow> ('m, 'o, 's) checkpoint" where
  "checkpoint_of run e m =
     \<lparr>ck_model_state = model_state (run e), ck_optimizer_state = optimizer_state (run e),
      ck_epoch = e, ck_log = map (\<lambda>i. scores (run i)) [0..<m]\<rparr>"

definition losses :: "(nat \<Rightarrow> ('m, 'o, 's) epoch_result) \<Rightarrow> nat \<Rightarrow> real" where
  "losses run i = valid_loss (run i)"

text \<open>
  The state of the fold after its first \<open>k\<close> epochs, in closed form; \<open>stopped\<close> says that
  the last of them took the \<open>break\<close>, which comes before the periodic checkpoint.
\<close>

definition state_after ::
  "args \<Rightarrow> (nat \<Rightarrow> ('m, 'o, 's) epoch_result) \<Rightarrow> ('m, 'o, 's) fold_state \<Rightarrow> nat \<Rightarrow> bool \<Rightarrow>
   ('m, 'o, 's) fold_state" where
  "state_after a run st0 k stopped =
     \<lparr>best_loss = (if k = 0 then None else Some (losses run (last_best (losses run) k))),
      best_epoch = (if k = 0 then 0 else last_best (losses run) k),
      best_model =
        (if k = 0 then best_model st0
         else Some (model_state (run (last_best (losses run) k)))),
      best_optimizer =
        (if k = 0 then best_optimizer st0
         else Some (optimizer_state (run (last_best (losses run) k)))),
      patience_count = (if k = 0 then 0 else streak (losses run) (k - 1)),
      log_scores = map (\<lambda>i. scores (run i)) [0..<k],
      files =
        (\<lambda>p. case p of
           EpochModel e \<Rightarrow>
             if 0 < e \<and> e < (if stopped then k - 1 else k) \<and> int e mod checkpoint_epoch a = 0
             then Some (checkpoint_of run e (Suc e))
             else files st0 p
         | BestModelFold f \<Rightarrow> files st0 p),
      early_stop = stopped\<rparr>"

section \<open>Prediction export\<close>

text \<open>
  \<open>save_predictions\<close>. The world that it reads and changes: the files (a checkpoint as
  \<open>torch.save\<close> wrote it, or the records of predictions as \<open>to_json\<close> writes them), the
  lines printed, and the model's weights and mode. The network is the function \<open>forward\<close>
  from the weights and one sample to the logits of the sample; a batch is a list of
  samples and the data loader a list of batches. \<open>torch.load\<close> raises on a file that is
  not a checkpoint.
\<close>

record prediction =
  fid :: int
  crop_id :: int
  crop_name :: string
  crop_probs :: "real list"

datatype ('m, 'o, 's) file_content =
    CheckpointFile "('m, 'o, 's) checkpoint"
  | PredictionsFile "prediction list"

datatype message =
    Resuming string nat
  | ValidationSaved string
  | SubmissionSaved string
  | FrameHead "prediction list"
  | NoBestModel

record ('m, 'o, 's) world =
  fs :: "string \<rightharpoonup> ('m, 'o, 's) file_content"
  printed :: "message list"
  weights :: 'm
  training_mode :: bool

record 'x sample =
  sample_x :: 'x
  sample_fid :: int

record predict_args =
  args_split :: string
  args_target_dir :: string

text \<open>\<open>torch.nn.Softmax(dim=1)\<close> on one row, and \<open>np.argmax\<close>: the first index of the maximum.\<close>

definition softmax :: "real list \<Rightarrow> real list" where
  "softmax z = map (\<lambda>x. exp x / sum_list (map exp z)) z"

fun argmax_from :: "real list \<Rightarrow> nat \<Rightarrow> nat \<Rightarrow> real \<Rightarrow> nat" where
  "argmax_from [] i b v = b"
| "argmax_from (x # xs) i b v =
     (if v < x then argmax_from xs (Suc i) i x else argmax_from xs (Suc i) b v)"

definition argmax :: "real list \<Rightarrow> py_error + nat" where
  "argmax xs = (case xs of [] \<Rightarrow> Inl ValueError | x # rest \<Rightarrow> Inr (argmax_from rest 1 0 x))"

text \<open>Python's \<open>xs[i]\<close> for an index that is not negative.\<close>

definition item :: "'a list \<Rightarrow> nat \<Rightarrow> py_error + 'a" where
  "item xs i = (if i < length xs then Inr (xs ! i) else Inl IndexError)"

text \<open>
  The loop over the batches. \<open>softmax(logits)...numpy()[0]\<close> is the row of the first
  sample of the batch, and \<open>fid...numpy()[0]\<close> its field id.
\<close>

fun predict_batches ::
  "('m \<Rightarrow> 'x \<Rightarrow> real list) \<Rightarrow> 'm \<Rightarrow> 'x sample list list \<Rightarrow> int list \<Rightarrow> string list \<Rightarrow>
   prediction list \<Rightarrow> py_error + prediction list" where
  "predict_batches forward w [] label_ids label_names output_list = Inr output_list"
| "predict_batches forward w (batch # rest) label_ids label_names output_list =
     (case map (\<lambda>s. softmax (forward w (sample_x s))) batch of
        [] \<Rightarrow> Inl IndexError
      | predicted_probabilities # _ \<Rightarrow>
          (case argmax predicted_probabilities of
             Inl e \<Rightarrow> Inl e
           | Inr predicted_class \<Rightarrow>
               (case item (map sample_fid batch) 0 of
                  Inl e \<Rightarrow> Inl e
                | Inr f \<Rightarrow>
                    (case item label_ids predicted_class of
                       Inl e \<Rightarrow> Inl e
                     | Inr cid \<Rightarrow>
                         (case item label_names predicted_class of
                            Inl e \<Rightarrow> Inl e
                          | Inr cname \<Rightarrow>
                              predict_batches forward w rest label_ids label_names
                                (output_list @
                                 [\<lparr>fid = f, crop_id = cid, crop_name = cname,
                                   crop_probs = predicted_probabilities\<rparr>]))))))"

definition path_join :: "string \<Rightarrow> string \<Rightarrow> string" where
  "path_join d f = d @ ''/'' @ f"

definition save_predictions ::
  "string \<Rightarrow> ('m \<Rightarrow> 'x \<Rightarrow> real list) \<Rightarrow> 'x sample list list \<Rightarrow> int list \<Rightarrow> string list \<Rightarrow>
   predict_args \<Rightarrow> ('m, 'o, 's) world \<Rightarrow> py_error + ('m, 'o, 's) world" where
  "save_predictions save_model_path forward data_loader label_ids label_names a world =
     (case fs world save_model_path of
        Some content \<Rightarrow>
          (case content of
             PredictionsFile _ \<Rightarrow> Inl RuntimeError
           | CheckpointFile checkpoint \<Rightarrow>
               (let START_EPOCH = ck_epoch checkpoint;
                    log = ck_log checkpoint;
                    world = world\<lparr>weights := ck_model_state checkpoint,
                                  training_mode := False\<rparr>;
                    world = world\<lparr>printed := printed world @
                              [Resuming save_model_path START_EPOCH]\<rparr>
                in case predict_batches forward (weights world) data_loader
                          label_ids label_names [] of
                     Inl e \<Rightarrow> Inl e
                   | Inr output_list \<Rightarrow>
                       (let output_name =
                              (if args_split a = ''train''
                               then path_join (args_target_dir a) ''validation.json''
                               else path_join (args_target_dir a) ''submission.json'');
                            world = world\<lparr>printed := printed world @
                              [if args_split a = ''train'' then ValidationSaved output_name
                               else SubmissionSaved output_name]\<rparr>;
                            world = world\<lparr>printed := printed world @
                              [FrameHead (take 5 output_list)]\<rparr>
                        in Inr (world\<lparr>fs := (fs world)(output_name \<mapsto>
                                  PredictionsFile output_list)\<rparr>))))
      | None \<Rightarrow> Inr (world\<lparr>printed := printed world @ [NoBestModel]\<rparr>))"

section \<open>The loss and the batches of a data loader\<close>

text \<open>
  \<open>bin_cross_entr_each_crop\<close> on the logits of a batch (one row per sample) and its true
  labels. The tensor operations raise as PyTorch does: \<open>scatter_\<close> along dimension 1
  needs an index with no more rows than the tensor and labels from 0 up to the number of
  columns; \<open>y_prob[:, i]\<close> needs a column \<open>i\<close>; \<open>BCELoss\<close> needs an input and a target of
  the same size. \<open>BCELoss\<close> clamps its logarithms at \<open>-100\<close> and takes the mean.
\<close>

definition log_clamped :: "real \<Rightarrow> real" where
  "log_clamped p = (if p \<le> 0 then - 100 else max (ln p) (- 100))"

definition loss_bc :: "real list \<Rightarrow> real list \<Rightarrow> py_error + real" where
  "loss_bc input target =
     (if length target \<noteq> length input then Inl ValueError
      else Inr (sum_list (map (\<lambda>(p, t). - (t * log_clamped p + (1 - t) * log_clamped (1 - p)))
                  (zip input target)) / real (length input)))"

text \<open>
  \<open>torch.FloatTensor(B, classes)\<close> set to zero, then \<open>scatter_(1, y_true.view(-1, 1), 1)\<close>:
  row \<open>i\<close> gets a 1 in the column \<open>y_true[i]\<close>.
\<close>

definition scatter_onehot :: "nat \<Rightarrow> nat \<Rightarrow> int list \<Rightarrow> py_error + real list list" where
  "scatter_onehot B classes y_true =
     (if B < length y_true then Inl RuntimeError
      else if \<not> list_all (\<lambda>y. 0 \<le> y \<and> y < int classes) y_true then Inl RuntimeError
      else Inr (map (\<lambda>i. map (\<lambda>c. if i < length y_true \<and> y_true ! i = int c then 1 else 0)
                            [0..<classes]) [0..<B]))"

definition column :: "real list list \<Rightarrow> nat \<Rightarrow> py_error + real list" where
  "column rows i =
     (if list_all (\<lambda>r. i < length r) rows then Inr (map (\<lambda>r. r ! i) rows) else Inl IndexError)"

fun sum_class_losses ::
  "real list list \<Rightarrow> real list list \<Rightarrow> nat list \<Rightarrow> real \<Rightarrow> py_error + real" where
  "sum_class_losses y_prob y_true_onehot [] bin_ce = Inr bin_ce"
| "sum_class_losses y_prob y_true_onehot (i # rest) bin_ce =
     (case column y_prob i of
        Inl e \<Rightarrow> Inl e
      | Inr input \<Rightarrow>
          (case column y_true_onehot i of
             Inl e \<Rightarrow> Inl e
           | Inr target \<Rightarrow>
               (case loss_bc input target of
                  Inl e \<Rightarrow> Inl e
                | Inr l \<Rightarrow> sum_class_losses y_prob y_true_onehot rest (bin_ce + l))))"

text \<open>\<open>batch_size\<close> is \<open>args.batch_size\<close>.\<close>

definition bin_cross_entr_each_crop ::
  "real list list \<Rightarrow> int list \<Rightarrow> nat \<Rightarrow> nat \<Rightarrow> py_error + real" where
  "bin_cross_entr_each_crop logprobs y_true classes batch_size =
     (let y_prob = map softmax logprobs
      in case scatter_onehot batch_size classes y_true of
           Inl e \<Rightarrow> Inl e
         | Inr y_true_onehot \<Rightarrow> sum_class_losses y_prob y_true_onehot [0..<classes] 0)"

text \<open>
  The batches of \<open>DataLoader(dataset, batch_size, drop_last, sampler)\<close> for the order
  \<open>xs\<close> in which the sampler yields the samples: consecutive groups of \<open>batch_size\<close>, the
  last one shorter when the samples run out, and left out with \<open>drop_last\<close>. A batch size
  of 0 is refused.
\<close>

function chunks :: "nat \<Rightarrow> 'a list \<Rightarrow> 'a list list" where
  "chunks B xs = (if B = 0 \<or> xs = [] then [] else take B xs # chunks B (drop B xs))"
  by pat_completeness auto
termination
  by (relation "measure (\<lambda>(B, xs). length xs)") auto

declare chunks.simps [simp del]

definition data_loader :: "nat \<Rightarrow> bool \<Rightarrow> 'a list \<Rightarrow> py_error + 'a list list" where
  "data_loader batch_size drop_last xs =
     (if batch_size = 0 then Inl ValueError
      else (let batches = chunks batch_size xs
            in Inr (if drop_last \<and> batches \<noteq> [] \<and> length (last batches) < batch_size
                    then butlast batches else batches)))"

section \<open>Crop or pad to the exact size\<close>

lemma f_floor_int: "f_floor (of_int k) = k" by (simp add: f_floor_def)
lemma c_ceil_int: "c_ceil (of_int k) = k" by (simp add: c_ceil_def)
lemma f_floor_half: "f_floor (of_int k / 2) = k div 2"
  unfolding f_floor_def by (metis floor_divide_of_int_eq of_int_numeral)
lemma c_ceil_half: "c_ceil (of_int k / 2) = (k + 1) div 2"
proof -
  have "\<lceil>real_of_int k / 2\<rceil> = - \<lfloor>real_of_int (- k) / 2\<rfloor>"
    by (simp add: ceiling_def)
  also have "\<dots> = - ((- k) div 2)"
    by (metis floor_divide_of_int_eq of_int_numeral)
  also have "\<dots> = (k + 1) div 2" by presburger
  finally show ?thesis by (simp add: c_ceil_def)
qed

lemma crop_fit:
  assumes "hpad = S - int (length xs)" "hpad < 0" "0 \<le> S"
  shows "py_slice ((- c_ceil (of_int hpad)) div 2) (f_floor (of_int hpad) div 2) xs
         = fit (nat S) z xs"
proof -
  define n where "n = length xs"
  define d where "d = n - nat S"
  have n: "n = nat S + d" "0 < d" "hpad = - int d" using assms by (auto simp: n_def d_def)
  have lo: "slice_bound n ((- hpad) div 2) = d div 2"
    using n assms by (simp add: slice_bound_def; linarith)
  have hi: "slice_bound n (hpad div 2) = n - (d + 1) div 2"
    using n assms by (simp add: slice_bound_def; linarith)
  have len: "n - (d + 1) div 2 - d div 2 = nat S" using n by linarith
  have "py_slice ((- hpad) div 2) (hpad div 2) xs = take (nat S) (drop (d div 2) xs)"
    unfolding py_slice_def Let_def using lo hi len by (simp flip: n_def)
  moreover have "fit (nat S) z xs = take (nat S) (drop (d div 2) xs)"
    using n by (simp add: fit_def Let_def d_def flip: n_def)
  ultimately show ?thesis unfolding f_floor_int c_ceil_int by simp
qed

lemma pad_fit:
  assumes "hpad = S - int (length xs)" "0 < hpad"
  shows "replicate (nat (f_floor (of_int hpad / 2))) z @ xs @
         replicate (nat (c_ceil (of_int hpad / 2))) z = fit (nat S) z xs"
proof -
  have a: "nat (hpad div 2) = (nat S - length xs) div 2"
    using assms by linarith
  have b: "nat ((hpad + 1) div 2) = (nat S - length xs + 1) div 2"
    using assms by linarith
  have c: "\<not> nat S < length xs" using assms by linarith
  show ?thesis unfolding f_floor_half c_ceil_half a b using c
    by (simp add: fit_def Let_def)
qed

lemma fit_same: "length xs = S \<Longrightarrow> fit S z xs = xs"
  by (simp add: fit_def)

lemma length_fit: "length (fit S z xs) = S"
  by (simp add: fit_def Let_def) linarith


lemma shape_of_shape4:
  assumes "shape4 T D H W a" "0 < T" "0 < D" "0 < H \<or> W = 0"
  shows "shape a = (T, D, H, W)"
proof -
  obtain x a' where a: "a = x # a'" using assms by (cases a) (auto simp: shape4_def)
  then obtain p x' where x: "x = p # x'" using assms by (cases x) (auto simp: shape4_def)
  have p: "shape2 H W p" using assms a x by (simp add: shape4_def)
  show ?thesis
  proof (cases p)
    case Nil
    then show ?thesis using assms(1,4) a x p
      by (auto simp: shape_def shape4_def shape2_def plane_shape_def)
  next
    case (Cons r p')
    then show ?thesis using assms(1) a x p
      by (auto simp: shape_def shape4_def shape2_def plane_shape_def)
  qed
qed

lemma plane_shape_of_shape2:
  assumes "shape2 H W m" "0 < H \<or> W = 0"
  shows "plane_shape m = (H, W)"
  using assms by (cases m) (auto simp: shape2_def plane_shape_def)

lemma crop_or_pad_planewise:
  "crop_or_pad_to_size image_stack msk image_size =
     (map (map (\<lambda>p. snd (crop_or_pad_to_size image_stack p image_size))) image_stack,
      snd (crop_or_pad_to_size image_stack msk image_size))"
  by (simp add: crop_or_pad_to_size_def Let_def split_beta slice_axis2_def slice_axis3_def
      pad_axis2_def pad_axis3_def slice_rows_def slice_cols_def)


lemma fit_zeros: "fit S z (replicate n z) = replicate S z"
proof (cases "S < n")
  case True
  then show ?thesis by (simp add: fit_def Let_def min_def)
next
  case False
  then have "(S - n) div 2 + n + (S - n + 1) div 2 = S" by linarith
  then show ?thesis using False
    by (simp add: fit_def Let_def add.assoc flip: replicate_add)
qed

lemma set_fit: "set (fit S z xs) \<subseteq> insert z (set xs)"
  by (auto simp: fit_def Let_def dest: in_set_takeD in_set_dropD)

text \<open>The three cases of one axis of a row.\<close>

lemma cols_crop:
  assumes "wpad = S - int W" "wpad < 0" "0 \<le> S" "list_all (\<lambda>r. length r = W) m"
  shows "slice_cols ((- c_ceil (of_int wpad)) div 2) (f_floor (of_int wpad) div 2) m
         = map (fit (nat S) z) m"
  unfolding slice_cols_def using assms
  by (intro map_cong refl crop_fit) (auto simp: list_all_iff)

lemma cols_pad:
  assumes "wpad = S - int W" "0 < wpad" "list_all (\<lambda>r. length r = W) m"
  shows "pad_cols (f_floor (of_int wpad / 2), c_ceil (of_int wpad / 2)) m
         = map (fit (nat S) 0) m"
  unfolding pad_cols_def fst_conv snd_conv using assms
  by (intro map_cong refl pad_fit) (auto simp: list_all_iff)

lemma cols_same:
  assumes "0 = S - int W" "list_all (\<lambda>r. length r = W) m"
  shows "m = map (fit (nat S) z) m"
proof -
  have "map (fit (nat S) z) m = map (\<lambda>r. r) m"
    using assms by (intro map_cong refl fit_same) (auto simp: list_all_iff)
  then show ?thesis by simp
qed

lemma rows_pad:
  assumes "hpad = S - int (length m)" "0 < hpad"
  shows "pad_rows (f_floor (of_int hpad / 2), c_ceil (of_int hpad / 2)) m
         = fit (nat S) (replicate (snd (plane_shape m)) 0) m"
  unfolding pad_rows_def fst_conv snd_conv Let_def using assms by (rule pad_fit)

lemma fit_map: "fit S (g z) (map g xs) = map g (fit S z xs)"
  by (simp add: fit_def Let_def take_map drop_map)

lemma map_fit_rows:
  assumes "list_all (\<lambda>r. length r = W) m"
  shows "list_all (\<lambda>r. length r = W) (fit S (replicate W z) m)"
  using assms set_fit[of S "replicate W z" m] by (auto simp: list_all_iff)

lemma cols_step:
  assumes w: "wpad = S - int W" and S: "0 \<le> S" and m: "list_all (\<lambda>r. length r = W) m"
  shows "(if 0 < wpad then pad_cols (f_floor (of_int wpad / 2), c_ceil (of_int wpad / 2))
            (if wpad < 0 then slice_cols ((- c_ceil (of_int wpad)) div 2) (f_floor (of_int wpad) div 2) m else m)
          else (if wpad < 0 then slice_cols ((- c_ceil (of_int wpad)) div 2) (f_floor (of_int wpad) div 2) m else m))
         = map (fit (nat S) 0) m"
proof -
  consider "wpad < 0" | "wpad = 0" | "0 < wpad" by linarith
  then show ?thesis
  proof cases
    case 1 then show ?thesis using cols_crop[OF w 1 S m] by simp
  next
    case 2 then show ?thesis using cols_same[of S W m] w m by simp
  next
    case 3 then show ?thesis using cols_pad[OF w 3 m] by simp
  qed
qed

lemma crop_or_pad_plane:
  fixes p :: "'b::zero plane"
  assumes sh: "shape image_stack = (T, D, H, W)" and p: "shape2 H W p"
    and H: "0 < H \<or> W = 0" and S: "0 \<le> image_size"
  shows "snd (crop_or_pad_to_size image_stack p image_size) = fit_plane (nat image_size) p"
proof -
  define hpad where "hpad = image_size - int H"
  define wpad where "wpad = image_size - int W"
  define Z where "Z = replicate W (0::'b)"
  define q where "q = fit (nat image_size) Z p"
  have len: "length p = H" and rows: "list_all (\<lambda>r. length r = W) p"
    using p by (simp_all add: shape2_def)
  have ps: "snd (plane_shape p) = W" using plane_shape_of_shape2[OF p H] by simp
  have hp: "hpad = image_size - int (length p)" by (simp add: hpad_def len)
  have qrows: "list_all (\<lambda>r. length r = W) q"
    unfolding q_def Z_def by (rule map_fit_rows[OF rows])
  have goal: "fit_plane (nat image_size) p = map (fit (nat image_size) 0) q"
    by (simp add: fit_plane_def ps Z_def q_def)
  have unf: "snd (crop_or_pad_to_size image_stack p image_size) =
      (let m1 = (if hpad < 0 then slice_rows ((- c_ceil (of_int hpad)) div 2) (f_floor (of_int hpad) div 2) p else p);
           m2 = (if wpad < 0 then slice_cols ((- c_ceil (of_int wpad)) div 2) (f_floor (of_int wpad) div 2) m1 else m1);
           m3 = (if 0 < hpad then pad_rows (f_floor (of_int hpad / 2), c_ceil (of_int hpad / 2)) m2 else m2)
       in (if 0 < wpad then pad_cols (f_floor (of_int wpad / 2), c_ceil (of_int wpad / 2)) m3 else m3))"
    by (simp add: crop_or_pad_to_size_def sh Let_def split_beta hpad_def wpad_def)
  consider "hpad < 0" | "hpad = 0" | "0 < hpad \<and> 0 \<le> wpad" | "0 < hpad \<and> wpad < 0" by linarith
  then show ?thesis
  proof cases
    case 1
    then have "slice_rows ((- c_ceil (of_int hpad)) div 2) (f_floor (of_int hpad) div 2) p = q"
      using crop_fit[OF hp 1 S] by (simp add: slice_rows_def q_def)
    then show ?thesis using 1 cols_step[OF wpad_def S qrows] unfolding unf goal
      by (auto simp: Let_def split: if_splits)
  next
    case 2
    then have "p = q" using hp S by (simp add: fit_same q_def)
    then show ?thesis using 2 cols_step[OF wpad_def S qrows] unfolding unf goal
      by (auto simp: Let_def split: if_splits)
  next
    case 3
    then have nw: "\<not> wpad < 0" "0 < hpad" "\<not> hpad < 0" by auto
    have "pad_rows (f_floor (of_int hpad / 2), c_ceil (of_int hpad / 2)) p = q"
      using rows_pad[OF hp] nw by (simp add: ps Z_def q_def)
    then show ?thesis using nw cols_step[OF wpad_def S qrows] unfolding unf goal
      by (auto simp: Let_def split: if_splits)
  next
    case 4
    define m2 where "m2 = map (fit (nat image_size) (0::'b)) p"
    have c: "slice_cols ((- c_ceil (of_int wpad)) div 2) (f_floor (of_int wpad) div 2) p = m2"
      using cols_crop[OF wpad_def _ S rows] 4 by (simp add: m2_def)
    have "0 < H" using 4 H S by (auto simp: wpad_def)
    then have "m2 \<noteq> []" using len by (auto simp: m2_def)
    then have w2: "snd (plane_shape m2) = nat image_size"
      by (cases p) (auto simp: m2_def plane_shape_def length_fit)
    have "hpad = image_size - int (length m2)" by (simp add: hp m2_def)
    then have "pad_rows (f_floor (of_int hpad / 2), c_ceil (of_int hpad / 2)) m2
        = fit (nat image_size) (replicate (nat image_size) 0) m2"
      using rows_pad[of hpad image_size m2] 4 by (simp add: w2)
    also have "\<dots> = fit (nat image_size) (fit (nat image_size) 0 Z) m2"
      by (simp add: Z_def fit_zeros)
    also have "\<dots> = map (fit (nat image_size) 0) q"
      unfolding m2_def q_def by (rule fit_map)
    finally show ?thesis using 4 c unfolding unf goal by (simp add: Let_def)
  qed
qed


lemma shape2_fit_plane: "shape2 S S (fit_plane S p)"
  by (simp add: shape2_def fit_plane_def length_fit list_all_iff)

lemma crop_or_pad_fit:
  assumes "shape4 T D H W image_stack" and "shape2 H W msk"
    and "0 < T" and "0 < D" and "0 < H \<or> W = 0" and "0 \<le> image_size"
  shows "crop_or_pad_to_size image_stack msk image_size =
           (map (map (fit_plane (nat image_size))) image_stack, fit_plane (nat image_size) msk)"
proof -
  have sh: "shape image_stack = (T, D, H, W)"
    using assms by (intro shape_of_shape4)
  have planes: "\<And>x p. x \<in> set image_stack \<Longrightarrow> p \<in> set x \<Longrightarrow> shape2 H W p"
    using assms(1) by (auto simp: shape4_def list_all_iff)
  have img: "map (map (\<lambda>p. snd (crop_or_pad_to_size image_stack p image_size))) image_stack
      = map (map (fit_plane (nat image_size))) image_stack"
    using planes assms(5,6) by (intro map_cong refl crop_or_pad_plane[OF sh]) simp_all
  have m: "snd (crop_or_pad_to_size image_stack msk image_size) = fit_plane (nat image_size) msk"
    using assms(2,5,6) by (intro crop_or_pad_plane[OF sh])
  show ?thesis
    using crop_or_pad_planewise[of image_stack msk image_size] img m by simp
qed

lemma shape4_map_planes:
  assumes "shape4 T D H W a" and "\<And>p. shape2 H W p \<Longrightarrow> shape2 H' W' (g p)"
  shows "shape4 T D H' W' (map (map g) a)"
  using assms by (simp add: shape4_def list_all_iff)

text \<open>
  Claim C1. For an image stack of shape \<open>[T, D, H, W]\<close> (all at least 1) and a mask of
  shape \<open>[H, W]\<close>, \<open>crop_or_pad_to_size\<close> fits every plane of the stack, and the mask,
  to the target size, each spatial axis on its own: a longer axis is cropped, the odd row or
  column more at its trailing edge, and a shorter one is padded with zeros, the odd one more
  at its trailing edge. The results have the shapes \<open>[T, D, image_size, image_size]\<close> and
  \<open>[image_size, image_size]\<close>. The witness is the padding of a \<open>[10, 4, 16, 16]\<close> stack
  to the size 32, with its border of zeros.
\<close>

theorem crop_or_pad_to_size_exact:
  assumes "shape4 T D H W image_stack" and "shape2 H W msk"
    and "0 < T" and "0 < D" and "0 < H" and "0 < W" and "0 \<le> image_size"
  shows "crop_or_pad_to_size image_stack msk image_size =
           (map (map (fit_plane (nat image_size))) image_stack, fit_plane (nat image_size) msk)
         \<and> shape4 T D (nat image_size) (nat image_size)
             (fst (crop_or_pad_to_size image_stack msk image_size))
         \<and> shape2 (nat image_size) (nat image_size)
             (snd (crop_or_pad_to_size image_stack msk image_size))"
proof -
  have eq: "crop_or_pad_to_size image_stack msk image_size =
      (map (map (fit_plane (nat image_size))) image_stack, fit_plane (nat image_size) msk)"
    by (rule crop_or_pad_fit[OF assms(1,2,3,4) disjI1[OF assms(5)] assms(7)])
  have "shape4 T D (nat image_size) (nat image_size)
      (map (map (fit_plane (nat image_size))) image_stack)"
    using assms(1) by (rule shape4_map_planes) (rule shape2_fit_plane)
  then show ?thesis unfolding eq by (simp add: shape2_fit_plane)
qed

theorem crop_or_pad_to_size_exact_witness:
  "shape4 10 4 16 16 (replicate 10 (replicate 4 (replicate 16 (replicate 16 (1::real)))))
   \<and> shape2 16 16 (replicate 16 (replicate 16 (1::int)))
   \<and> crop_or_pad_to_size (replicate 10 (replicate 4 (replicate 16 (replicate 16 (1::real)))))
        (replicate 16 (replicate 16 (1::int))) 32 =
      (replicate 10 (replicate 4
         (replicate 8 (replicate 32 0) @
          replicate 16 (replicate 8 0 @ replicate 16 1 @ replicate 8 0) @
          replicate 8 (replicate 32 0))),
       replicate 8 (replicate 32 0) @
       replicate 16 (replicate 8 0 @ replicate 16 1 @ replicate 8 0) @
       replicate 8 (replicate 32 0))
   \<and> shape4 10 4 32 32
        (fst (crop_or_pad_to_size (replicate 10 (replicate 4 (replicate 16 (replicate 16 (1::real)))))
           (replicate 16 (replicate 16 (1::int))) 32))
   \<and> shape2 32 32
        (snd (crop_or_pad_to_size (replicate 10 (replicate 4 (replicate 16 (replicate 16 (1::real)))))
           (replicate 16 (replicate 16 (1::int))) 32))"
proof -
  have a: "shape4 10 4 16 16 (replicate 10 (replicate 4 (replicate 16 (replicate 16 (1::real)))))"
    by (simp add: shape4_def shape2_def list_all_iff)
  have b: "shape2 16 16 (replicate 16 (replicate 16 (1::int)))"
    by (simp add: shape2_def list_all_iff)
  have f: "fit_plane 32 (replicate 16 (replicate 16 x)) =
       replicate 8 (replicate 32 0) @
       replicate 16 (replicate 8 0 @ replicate 16 x @ replicate 8 0) @
       replicate 8 (replicate 32 0)" for x :: "'a::zero"
  proof -
    have "replicate 8 (0::'a) @ replicate 16 0 @ replicate 8 0 = replicate 32 0"
      by (simp flip: replicate_add)
    moreover have "snd (plane_shape (replicate 16 (replicate 16 x))) = 16"
      using plane_shape_of_shape2[of 16 16 "replicate 16 (replicate 16 x)"]
      by (simp add: shape2_def list_all_iff)
    ultimately show ?thesis
      by (simp add: fit_plane_def fit_def)
  qed
  show ?thesis
    using crop_or_pad_to_size_exact[OF a b, of 32] a b by (auto simp: f)
qed

section \<open>The random crop\<close>

lemma py_slice_window:
  assumes "0 \<le> a" "a \<le> b" "b \<le> int (length xs)"
  shows "py_slice a b xs = map (\<lambda>i. xs ! i) [nat a..<nat b]"
proof -
  have lo: "slice_bound (length xs) a = nat a" and hi: "slice_bound (length xs) b = nat b"
    using assms by (auto simp: slice_bound_def)
  have "take (nat b - nat a) (drop (nat a) xs) = map (\<lambda>i. xs ! i) [nat a..<nat b]"
    using assms by (intro nth_equalityI) auto
  then show ?thesis by (simp add: py_slice_def lo hi)
qed

lemma slice2_window:
  assumes "shape2 H W p" "0 \<le> a" "a \<le> b" "b \<le> int H" "0 \<le> c" "c \<le> d" "d \<le> int W"
  shows "slice2 a b c d p = window (nat a) (nat b) (nat c) (nat d) p"
proof -
  have len: "length p = H" and rows: "\<And>i. i < H \<Longrightarrow> length (p ! i) = W"
    using assms(1) by (auto simp: shape2_def list_all_length)
  have "py_slice a b p = map (\<lambda>i. p ! i) [nat a..<nat b]"
    using assms by (intro py_slice_window) (auto simp: len)
  moreover have "py_slice c d (p ! i) = map (\<lambda>j. p ! i ! j) [nat c..<nat d]"
    if "i \<in> set [nat a..<nat b]" for i
  proof -
    have "i < H" using that assms by auto
    then show ?thesis using assms rows by (intro py_slice_window) auto
  qed
  ultimately show ?thesis
    by (simp add: slice2_def window_def)
qed

lemma slice4_planewise: "slice4 a b c d img = map (map (slice2 a b c d)) img"
  by (simp add: slice4_def slice2_def)

lemma shape2_window: "shape2 (b - a) (d - c) (window a b c d p)"
  by (simp add: shape2_def window_def list_all_iff)

lemma crop_center_bounds:
  assumes "crop_center S H h" "0 \<le> S"
  shows "0 \<le> h - S div 2" "h - S div 2 \<le> h + S div 2" "h + S div 2 < int H"
    "nat (h + S div 2) - nat (h - S div 2) = nat (2 * (S div 2))"
  using assms by (auto simp: crop_center_def)


lemma random_crop_skip:
  assumes "shape image_stack = (T, D, H, W)"
    and "int H - S div 2 \<le> S \<or> int W - S div 2 \<le> S"
  shows "random_crop h w image_stack msk S = (image_stack, msk)"
  unfolding random_crop_def assms(1) using assms(2) by auto

lemma random_crop_window:
  assumes sh: "shape image_stack = (T, D, H, W)"
    and img: "shape4 T D H W image_stack" and m: "shape2 H W msk"
    and go: "\<not> (int H - S div 2 \<le> S \<or> int W - S div 2 \<le> S)"
    and h: "crop_center S H h" and w: "crop_center S W w" and S: "0 \<le> S"
  shows "random_crop h w image_stack msk S =
      (map (map (window (nat (h - S div 2)) (nat (h + S div 2))
                        (nat (w - S div 2)) (nat (w + S div 2)))) image_stack,
       window (nat (h - S div 2)) (nat (h + S div 2))
              (nat (w - S div 2)) (nat (w + S div 2)) msk)"
proof -
  note bh = crop_center_bounds[OF h S] and bw = crop_center_bounds[OF w S]
  have win: "slice2 (h - S div 2) (h + S div 2) (w - S div 2) (w + S div 2) p =
      window (nat (h - S div 2)) (nat (h + S div 2)) (nat (w - S div 2)) (nat (w + S div 2)) p"
    if "shape2 H W p" for p :: "'c plane"
    by (rule slice2_window[OF that bh(1) bh(2) less_imp_le[OF bh(3)] bw(1) bw(2) less_imp_le[OF bw(3)]])
  have planes: "\<And>x p. x \<in> set image_stack \<Longrightarrow> p \<in> set x \<Longrightarrow> shape2 H W p"
    using img by (auto simp: shape4_def list_all_iff)
  have "map (map (slice2 (h - S div 2) (h + S div 2) (w - S div 2) (w + S div 2))) image_stack
      = map (map (window (nat (h - S div 2)) (nat (h + S div 2))
                        (nat (w - S div 2)) (nat (w + S div 2)))) image_stack"
    using planes by (intro map_cong refl win) auto
  moreover note win[OF m]
  moreover have "random_crop h w image_stack msk S =
     (slice4 (h - S div 2) (h + S div 2) (w - S div 2) (w + S div 2) image_stack,
      slice2 (h - S div 2) (h + S div 2) (w - S div 2) (w + S div 2) msk)"
    unfolding random_crop_def sh using go by auto
  ultimately show ?thesis
    by (simp only: slice4_planewise)
qed

text \<open>
  Claim C7. \<open>random_crop\<close> returns its inputs unchanged when
  \<open>H - image_size // 2 \<le> image_size\<close> or \<open>W - image_size // 2 \<le> image_size\<close>. Otherwise,
  for every centre \<open>(h, w)\<close> that \<open>randint\<close> can return, the two index ranges lie within
  \<open>[0, H)\<close> and \<open>[0, W)\<close>, the slices are exactly the window of these ranges, of the
  stack's planes and of the mask, and the result differs from the input.
\<close>

theorem random_crop_in_bounds:
  assumes "shape4 T D H W image_stack" and "shape2 H W msk"
    and "0 < T" and "0 < D" and "0 < H" and "0 \<le> S"
  shows "(int H - S div 2 \<le> S \<or> int W - S div 2 \<le> S \<longrightarrow>
            random_crop h w image_stack msk S = (image_stack, msk))
       \<and> (\<not> (int H - S div 2 \<le> S \<or> int W - S div 2 \<le> S) \<and>
            crop_center S H h \<and> crop_center S W w \<longrightarrow>
            0 \<le> h - S div 2 \<and> h - S div 2 \<le> h + S div 2 \<and> h + S div 2 < int H \<and>
            0 \<le> w - S div 2 \<and> w - S div 2 \<le> w + S div 2 \<and> w + S div 2 < int W \<and>
            random_crop h w image_stack msk S =
              (map (map (window (nat (h - S div 2)) (nat (h + S div 2))
                                (nat (w - S div 2)) (nat (w + S div 2)))) image_stack,
               window (nat (h - S div 2)) (nat (h + S div 2))
                      (nat (w - S div 2)) (nat (w + S div 2)) msk) \<and>
            random_crop h w image_stack msk S \<noteq> (image_stack, msk))"
proof -
  have sh: "shape image_stack = (T, D, H, W)"
    using assms by (intro shape_of_shape4) simp_all
  have skip: "random_crop h w image_stack msk S = (image_stack, msk)"
    if "int H - S div 2 \<le> S \<or> int W - S div 2 \<le> S"
    using random_crop_skip[OF sh that] .
  have crop: "0 \<le> h - S div 2 \<and> h - S div 2 \<le> h + S div 2 \<and> h + S div 2 < int H \<and>
            0 \<le> w - S div 2 \<and> w - S div 2 \<le> w + S div 2 \<and> w + S div 2 < int W \<and>
            random_crop h w image_stack msk S =
              (map (map (window (nat (h - S div 2)) (nat (h + S div 2))
                                (nat (w - S div 2)) (nat (w + S div 2)))) image_stack,
               window (nat (h - S div 2)) (nat (h + S div 2))
                      (nat (w - S div 2)) (nat (w + S div 2)) msk) \<and>
            random_crop h w image_stack msk S \<noteq> (image_stack, msk)"
    if go: "\<not> (int H - S div 2 \<le> S \<or> int W - S div 2 \<le> S)"
      and h: "crop_center S H h" and w: "crop_center S W w"
  proof -
    note bh = crop_center_bounds[OF h \<open>0 \<le> S\<close>] and bw = crop_center_bounds[OF w \<open>0 \<le> S\<close>]
    note eq = random_crop_window[OF sh assms(1,2) go h w \<open>0 \<le> S\<close>]
    have "length (window (nat (h - S div 2)) (nat (h + S div 2))
                      (nat (w - S div 2)) (nat (w + S div 2)) msk) = nat (2 * (S div 2))"
      using bh by (simp add: window_def)
    moreover have "nat (2 * (S div 2)) < H" using go assms by linarith
    moreover have "length msk = H" using assms(2) by (simp add: shape2_def)
    ultimately have "length (snd (random_crop h w image_stack msk S)) \<noteq> length msk"
      unfolding eq snd_conv by linarith
    then have ne: "random_crop h w image_stack msk S \<noteq> (image_stack, msk)"
      by (metis snd_conv)
    show ?thesis
      by (intro conjI bh(1) bh(2) bh(3) bw(1) bw(2) bw(3) eq ne)
  qed
  show ?thesis
  proof (rule conjI; rule impI)
    assume "int H - S div 2 \<le> S \<or> int W - S div 2 \<le> S"
    then show "random_crop h w image_stack msk S = (image_stack, msk)" by (rule skip)
  next
    assume a: "\<not> (int H - S div 2 \<le> S \<or> int W - S div 2 \<le> S) \<and>
            crop_center S H h \<and> crop_center S W w"
    show "0 \<le> h - S div 2 \<and> h - S div 2 \<le> h + S div 2 \<and> h + S div 2 < int H \<and>
            0 \<le> w - S div 2 \<and> w - S div 2 \<le> w + S div 2 \<and> w + S div 2 < int W \<and>
            random_crop h w image_stack msk S =
              (map (map (window (nat (h - S div 2)) (nat (h + S div 2))
                                (nat (w - S div 2)) (nat (w + S div 2)))) image_stack,
               window (nat (h - S div 2)) (nat (h + S div 2))
                      (nat (w - S div 2)) (nat (w + S div 2)) msk) \<and>
            random_crop h w image_stack msk S \<noteq> (image_stack, msk)"
      by (rule crop[OF conjunct1[OF a] conjunct1[OF conjunct2[OF a]] conjunct2[OF conjunct2[OF a]]])
  qed
qed

theorem random_crop_in_bounds_witness:
  "shape4 1 1 4 4 [[[[1, 2, 3, 4], [5, 6, 7, 8], [9, 10, 11, 12], [13, 14, 15, 16::int]]]]
   \<and> shape2 4 4 [[0, 1, 1, 0], [0, 1, 0, 0], [1, 1, 1, 1], [0, 0, 0, 1::int]]
   \<and> crop_center 2 4 2
   \<and> random_crop 2 2 [[[[1, 2, 3, 4], [5, 6, 7, 8], [9, 10, 11, 12], [13, 14, 15, 16::int]]]]
        [[0, 1, 1, 0], [0, 1, 0, 0], [1, 1, 1, 1], [0, 0, 0, 1::int]] 2
      = ([[[[6, 7], [10, 11]]]], [[1, 0], [1, 1]])
   \<and> random_crop 0 0 [[[[1, 2, 3, 4], [5, 6, 7, 8], [9, 10, 11, 12], [13, 14, 15, 16::int]]]]
        [[0, 1, 1, 0], [0, 1, 0, 0], [1, 1, 1, 1], [0, 0, 0, 1::int]] 3
      = ([[[[1, 2, 3, 4], [5, 6, 7, 8], [9, 10, 11, 12], [13, 14, 15, 16]]]],
         [[0, 1, 1, 0], [0, 1, 0, 0], [1, 1, 1, 1], [0, 0, 0, 1]])"
proof -
  let ?img = "[[[[1, 2, 3, 4], [5, 6, 7, 8], [9, 10, 11, 12], [13, 14, 15, 16::int]]]]"
  let ?msk = "[[0, 1, 1, 0], [0, 1, 0, 0], [1, 1, 1, 1], [0, 0, 0, 1::int]]"
  have a: "shape4 1 1 4 4 ?img" by (simp add: shape4_def shape2_def)
  have b: "shape2 4 4 ?msk" by (simp add: shape2_def)
  have c: "crop_center 2 4 2" by (simp add: crop_center_def)
  have u: "[Suc 0..<3] = [1, 2]" by (simp add: upt_rec)
  from random_crop_in_bounds[OF a b, of 2 2 2] c
  have "random_crop 2 2 ?img ?msk 2 = ([[[[6, 7], [10, 11]]]], [[1, 0], [1, 1]])"
    by (simp add: window_def u)
  moreover from random_crop_in_bounds[OF a b, of 3 0 0]
  have "random_crop 0 0 ?img ?msk 3 = (?img, ?msk)" by simp
  ultimately show ?thesis using a b c by simp
qed

section \<open>The spatial branch of the transform\<close>

lemma shape2_transpose:
  assumes "shape2 n n q"
  shows "shape2 n n (transpose q)"
proof -
  have len: "length q = n" and rows: "\<And>i. i < length q \<Longrightarrow> length (q ! i) = n"
    using assms by (auto simp: shape2_def list_all_length)
  have e: "transpose q = map (\<lambda>i. map (\<lambda>j. q ! j ! i) [0..<length q]) [0..<n]"
    using len rows by (intro transpose_rectangle) auto
  show ?thesis by (subst e) (simp add: shape2_def list_all_iff len)
qed

lemma shape2_map_rev: "shape2 n m q \<Longrightarrow> shape2 n m (map rev q)"
  by (simp add: shape2_def list_all_iff)

lemma shape2_rot90:
  assumes "shape2 n n p"
  shows "shape2 n n (rot90 p k)"
proof -
  have "shape2 n n (map rev (rev p))"
    using assms by (simp add: shape2_def list_all_iff)
  then show ?thesis
    using assms shape2_transpose[OF shape2_map_rev[OF assms]]
      shape2_map_rev[OF shape2_transpose[OF assms]]
    by (simp add: rot90_def Let_def)
qed

lemma finish_image:
  "(if self_normalize self
    then map_image (\<lambda>x. x / (0.1171 + jitter_std r))
           (map_image (\<lambda>x. x - (0.1014 + jitter_mean r))
              (map_image (\<lambda>x. x * (1 / 10000)) im))
    else map_image (\<lambda>x. x * (1 / 10000)) im) = map_image (pixel_post self r) im"
  by (cases im) (simp_all add: pixel_post_def o_def)

lemma crops_le:
  assumes "crops S H W" "0 \<le> S"
  shows "S \<le> int H" "S \<le> int W"
    "\<not> (int H - S div 2 \<le> S \<or> int W - S div 2 \<le> S)"
  using assms by (auto simp: crops_def)

lemma not_crops_skip:
  assumes "\<not> crops S H W" and sh: "shape image_stack = (T, D, H, W)"
  shows "random_crop h w image_stack msk S = (image_stack, msk)"
  using assms(1) by (intro random_crop_skip[OF sh]) (auto simp: crops_def)

lemma crop_step:
  assumes sh: "shape image_stack = (T, D, H, W)"
    and img: "shape4 T D H W image_stack" and m: "shape2 H W msk"
    and S: "0 \<le> S"
    and dr: "crops S H W \<Longrightarrow> crop_center S H (crop_h r) \<and> crop_center S W (crop_w r)"
  shows "(if S \<le> int H \<and> S \<le> int W
          then random_crop (crop_h r) (crop_w r) image_stack msk S
          else (image_stack, msk))
         = (map (map (crop_plane S r H W)) image_stack, crop_plane S r H W msk)"
proof (cases "crops S H W")
  case True
  note c = crops_le[OF True S]
  have "random_crop (crop_h r) (crop_w r) image_stack msk S =
      (map (map (crop_plane S r H W)) image_stack, crop_plane S r H W msk)"
    using random_crop_window[OF sh img m c(3) conjunct1[OF dr[OF True]] conjunct2[OF dr[OF True]] S]
      True
    by (simp add: crop_plane_def[abs_def])
  then show ?thesis using c(1,2) by simp
next
  case False
  have "map (map (crop_plane S r H W)) image_stack = image_stack"
    using False by (simp add: crop_plane_def[abs_def])
  then show ?thesis
    using False not_crops_skip[OF False sh, of "crop_h r" "crop_w r" msk]
    by (simp add: crop_plane_def)
qed

lemma shape2_crop_plane:
  assumes "shape2 H W p" and "0 \<le> S"
    and "crops S H W \<Longrightarrow> crop_center S H (crop_h r) \<and> crop_center S W (crop_w r)"
  shows "shape2 (if crops S H W then nat (2 * (S div 2)) else H)
           (if crops S H W then nat (2 * (S div 2)) else W) (crop_plane S r H W p)"
proof (cases "crops S H W")
  case True
  have "nat (crop_h r + S div 2) - nat (crop_h r - S div 2) = nat (2 * (S div 2))"
    and "nat (crop_w r + S div 2) - nat (crop_w r - S div 2) = nat (2 * (S div 2))"
    using assms(3)[OF True] assms(2) crop_center_bounds(4) by blast+
  then show ?thesis
    using True shape2_window[where a = "nat (crop_h r - S div 2)"
        and b = "nat (crop_h r + S div 2)" and c = "nat (crop_w r - S div 2)"
        and d = "nat (crop_w r + S div 2)" and p = p]
    by (simp add: crop_plane_def)
next
  case False
  then show ?thesis using assms(1) by (simp add: crop_plane_def)
qed

lemma transform_spatial:
  fixes msk :: "'m::{zero,ord} plane"
  assumes sp: "self_spatial_encoder self"
    and img: "shape4 T D H W image_stack" and m: "shape2 H W msk"
    and T: "0 < T" and D: "0 < D" and H: "0 < H"
    and S: "0 \<le> self_image_size self"
    and dr: "crops (self_image_size self) H W \<Longrightarrow>
         crop_center (self_image_size self) H (crop_h r) \<and>
         crop_center (self_image_size self) W (crop_w r)"
  shows "transform self r image_stack msk =
      Inr (map_image (pixel_post self r)
             (Stack (map (map (spatial_plane (self_image_size self) r H W)) image_stack)),
           MaskArray (spatial_plane (self_image_size self) r H W msk))"
proof -
  define S where "S = self_image_size self"
  define H1 where "H1 = (if crops S H W then nat (2 * (S div 2)) else H)"
  define W1 where "W1 = (if crops S H W then nat (2 * (S div 2)) else W)"
  have S0: "0 \<le> S" using S by (simp add: S_def)
  have dr': "crops S H W \<Longrightarrow> crop_center S H (crop_h r) \<and> crop_center S W (crop_w r)"
    using dr by (simp add: S_def)
  have sh: "shape image_stack = (T, D, H, W)"
    by (rule shape_of_shape4[OF img T D disjI1[OF H]])
  note step1 = crop_step[OF sh img m S0 dr']
  have m1: "shape2 H1 W1 (crop_plane S r H W msk)"
    unfolding H1_def W1_def by (rule shape2_crop_plane[OF m S0 dr'])
  have i1: "shape4 T D H1 W1 (map (map (crop_plane S r H W)) image_stack)"
    unfolding H1_def W1_def
    by (rule shape4_map_planes[OF img]) (rule shape2_crop_plane[OF _ S0 dr'])
  have hw: "0 < H1 \<or> W1 = 0" using H by (auto simp: H1_def W1_def)
  note step2 = crop_or_pad_fit[OF i1 m1 T D hw S0]
  have fin: "map_image (pixel_post self r)
        (Stack (rot90_stack (map (map (fit_plane (nat S)))
           (map (map (crop_plane S r H W)) image_stack)) (rot r)))
      = map_image (pixel_post self r) (Stack (map (map (spatial_plane S r H W)) image_stack))"
    by (simp add: rot90_stack_def spatial_plane_def o_def)
  show ?thesis
    unfolding transform_def S_def[symmetric]
    apply (simp only: sp not_True_eq_False if_False sh Let_def prod.case step1 step2
        sum.case finish_image fin)
    apply (simp only: spatial_plane_def)
    done
qed


lemma shape2_spatial_plane:
  assumes "shape2 H W p" and "0 \<le> S"
  shows "shape2 (nat S) (nat S) (spatial_plane S r H W p)"
  unfolding spatial_plane_def by (intro shape2_rot90 shape2_fit_plane)

text \<open>
  Claim C6. With the spatial encoder, for every draw that the random generator can
  return, \<open>transform\<close> changes every plane of the image stack and the mask by one and the
  same function of positions, \<open>spatial_plane\<close>: the window of the random crop (the same
  index ranges), the fit to the target size (the same rows and columns cropped or padded,
  for even and for odd differences) and the same number of quarter turns. The returned
  mask has the spatial shape of the returned stack.
\<close>

theorem transform_keeps_mask_aligned:
  fixes msk :: "'m::{zero,ord} plane"
  assumes "self_spatial_encoder self"
    and "shape4 T D H W image_stack" and "shape2 H W msk"
    and "0 < T" and "0 < D" and "0 < H" and "0 < W"
    and "0 \<le> self_image_size self"
    and "crops (self_image_size self) H W \<Longrightarrow>
         crop_center (self_image_size self) H (crop_h r) \<and>
         crop_center (self_image_size self) W (crop_w r)"
  shows "transform self r image_stack msk =
      Inr (map_image (pixel_post self r)
             (Stack (map (map (spatial_plane (self_image_size self) r H W)) image_stack)),
           MaskArray (spatial_plane (self_image_size self) r H W msk))
    \<and> shape4 T D (nat (self_image_size self)) (nat (self_image_size self))
          (map (map (spatial_plane (self_image_size self) r H W)) image_stack)
    \<and> shape2 (nat (self_image_size self)) (nat (self_image_size self))
          (spatial_plane (self_image_size self) r H W msk)"
proof (intro conjI)
  show "transform self r image_stack msk =
      Inr (map_image (pixel_post self r)
             (Stack (map (map (spatial_plane (self_image_size self) r H W)) image_stack)),
           MaskArray (spatial_plane (self_image_size self) r H W msk))"
    by (rule transform_spatial[OF assms(1-6) assms(8) assms(9)])
  show "shape4 T D (nat (self_image_size self)) (nat (self_image_size self))
          (map (map (spatial_plane (self_image_size self) r H W)) image_stack)"
    by (rule shape4_map_planes[OF assms(2)]) (rule shape2_spatial_plane[OF _ assms(8)])
  show "shape2 (nat (self_image_size self)) (nat (self_image_size self))
          (spatial_plane (self_image_size self) r H W msk)"
    by (rule shape2_spatial_plane[OF assms(3) assms(8)])
qed

lemma upt_1_3: "[Suc 0..<3] = [1, 2]"
  by (simp add: upt_rec)

theorem transform_keeps_mask_aligned_witness:
  "transform \<lparr>self_spatial_encoder = True, self_normalize = False, self_image_size = 2\<rparr>
     \<lparr>crop_h = 2, crop_w = 2, rot = 3, jitter_mean = 0, jitter_std = 0\<rparr>
     [[[[1, 2, 3, 4], [5, 6, 7, 8], [9, 10, 11, 12], [13, 14, 15, 16]]]]
     [[0, 1, 1, 0], [0, 1, 0, 0], [1, 1, 1, 1], [0, 0, 0, 1::int]]
   = Inr (Stack [[[[10 / 10000, 6 / 10000], [11 / 10000, 7 / 10000]]]],
          MaskArray [[1, 1], [1, 0]])
   \<and> transform \<lparr>self_spatial_encoder = True, self_normalize = False, self_image_size = 3\<rparr>
     \<lparr>crop_h = 0, crop_w = 0, rot = 2, jitter_mean = 0, jitter_std = 0\<rparr>
     [[[[1, 2, 3, 4], [5, 6, 7, 8], [9, 10, 11, 12], [13, 14, 15, 16]]]]
     [[0, 1, 1, 0], [0, 1, 0, 0], [1, 1, 1, 1], [0, 0, 0, 1::int]]
   = Inr (Stack [[[[11 / 10000, 10 / 10000, 9 / 10000], [7 / 10000, 6 / 10000, 5 / 10000],
                   [3 / 10000, 2 / 10000, 1 / 10000]]]],
          MaskArray [[1, 1, 1], [0, 1, 0], [1, 1, 0]])"
proof -
  let ?img = "[[[[1, 2, 3, 4], [5, 6, 7, 8], [9, 10, 11, 12], [13, 14, 15, 16::real]]]]"
  let ?msk = "[[0, 1, 1, 0], [0, 1, 0, 0], [1, 1, 1, 1], [0, 0, 0, 1::int]]"
  let ?self2 = "\<lparr>self_spatial_encoder = True, self_normalize = False, self_image_size = 2\<rparr>"
  let ?self3 = "\<lparr>self_spatial_encoder = True, self_normalize = False, self_image_size = 3\<rparr>"
  let ?r1 = "\<lparr>crop_h = 2, crop_w = 2, rot = 3, jitter_mean = 0, jitter_std = 0\<rparr>"
  let ?r2 = "\<lparr>crop_h = 0, crop_w = 0, rot = 2, jitter_mean = 0, jitter_std = 0\<rparr>"
  have a: "shape4 1 1 4 4 ?img" by (simp add: shape4_def shape2_def)
  have b: "shape2 4 4 ?msk" by (simp add: shape2_def)
  have c2: "crops (self_image_size ?self2) 4 4 \<Longrightarrow>
      crop_center (self_image_size ?self2) 4 (crop_h ?r1) \<and>
      crop_center (self_image_size ?self2) 4 (crop_w ?r1)"
    by (simp add: crop_center_def)
  have c3: "crops (self_image_size ?self3) 4 4 \<Longrightarrow>
      crop_center (self_image_size ?self3) 4 (crop_h ?r2) \<and>
      crop_center (self_image_size ?self3) 4 (crop_w ?r2)"
    by (simp add: crops_def)
  have e: "spatial_plane 2 ?r1 4 4 [[x11, x12, x13, x14], [x21, x22, x23, x24],
        [x31, x32, x33, x34], [x41, x42, x43, x44]] = [[x32, x22], [x33, x23]]"
    "spatial_plane 3 ?r2 4 4 [[x11, x12, x13, x14], [x21, x22, x23, x24],
        [x31, x32, x33, x34], [x41, x42, x43, x44]] = [[x33, x32, x31], [x23, x22, x21], [x13, x12, x11]]"
    for x11 x12 x13 x14 x21 x22 x23 x24 x31 x32 x33 x34 x41 x42 x43 x44 :: "'a::zero"
    by (simp_all add: spatial_plane_def crop_plane_def crops_def window_def fit_plane_def fit_def
        plane_shape_def rot90_def upt_1_3)
  have "transform ?self2 ?r1 ?img ?msk =
      Inr (Stack [[[[10 / 10000, 6 / 10000], [11 / 10000, 7 / 10000]]]], MaskArray [[1, 1], [1, 0]])"
    using transform_keeps_mask_aligned[of ?self2 1 1 4 4 ?img ?msk ?r1, OF _ a b _ _ _ _ _ c2]
    by (simp add: e pixel_post_def)
  moreover have "transform ?self3 ?r2 ?img ?msk =
      Inr (Stack [[[[11 / 10000, 10 / 10000, 9 / 10000], [7 / 10000, 6 / 10000, 5 / 10000],
                   [3 / 10000, 2 / 10000, 1 / 10000]]]],
          MaskArray [[1, 1, 1], [0, 1, 0], [1, 1, 0]])"
    using transform_keeps_mask_aligned[of ?self3 1 1 4 4 ?img ?msk ?r2, OF _ a b _ _ _ _ _ c3]
    by (simp add: e pixel_post_def)
  ultimately show ?thesis by simp
qed

section \<open>Pixel values of the transform\<close>

lemma selected_row:
  fixes g :: "'a \<Rightarrow> real"
  assumes "length r = W" "length c = W"
  shows "sum_list (map g (map fst (filter snd (zip r c)))) = (\<Sum>j | j < W \<and> c ! j. g (r ! j))"
proof -
  have "sum_list (map g (map fst (filter snd (zip r c))))
      = sum_list (map (\<lambda>z. if snd z then g (fst z) else 0) (zip r c))"
    by (simp add: sum_list_map_filter' o_def)
  also have "\<dots> = (\<Sum>j = 0..<W. if c ! j then g (r ! j) else 0)"
    using assms by (auto simp: sum_list_sum_nth intro!: sum.cong)
  also have "\<dots> = (\<Sum>j \<in> {j \<in> {0..<W}. c ! j}. g (r ! j))"
    by (rule sum.inter_filter[symmetric]) simp
  also have "{j \<in> {0..<W}. c ! j} = {j. j < W \<and> c ! j}" by auto
  finally show ?thesis .
qed

lemma real_length: "real (length xs) = sum_list (map (\<lambda>_. 1) xs)"
  by (induction xs) simp_all

lemma length_concat_rows:
  "list_all (\<lambda>r. length r = W) p \<Longrightarrow> length (concat p) = length p * W"
  by (induction p) simp_all

lemma selected_rows:
  fixes g :: "'a \<Rightarrow> real"
  assumes "length p = length b"
    and "list_all (\<lambda>r. length r = W) p" and "list_all (\<lambda>r. length r = W) b"
  shows "sum_list (map g (map fst (filter snd (zip (concat p) (concat b)))))
       = (\<Sum>i < length p. \<Sum>j | j < W \<and> b ! i ! j. g (p ! i ! j))"
  using assms
proof (induction p b rule: rev_induct2)
  case (4 r p c b)
  then have len: "length p = length b" and rp: "list_all (\<lambda>r. length r = W) p"
    and rb: "list_all (\<lambda>r. length r = W) b" and r: "length r = W" and c: "length c = W"
    by simp_all
  have lc: "length (concat p) = length (concat b)"
    using length_concat_rows[OF rp] length_concat_rows[OF rb] len by simp
  have "sum_list (map g (map fst (filter snd (zip (concat (p @ [r])) (concat (b @ [c]))))))
      = sum_list (map g (map fst (filter snd (zip (concat p) (concat b)))))
        + sum_list (map g (map fst (filter snd (zip r c))))"
    using lc by simp
  also have "\<dots> = (\<Sum>i < length p. \<Sum>j | j < W \<and> b ! i ! j. g (p ! i ! j))
        + (\<Sum>j | j < W \<and> c ! j. g (r ! j))"
    using "4.IH"[OF len rp rb] selected_row[OF r c] by simp
  also have "\<dots> = (\<Sum>i < length (p @ [r]). \<Sum>j | j < W \<and> (b @ [c]) ! i ! j. g ((p @ [r]) ! i ! j))"
    using len by (simp add: nth_append)
  finally show ?case .
qed simp_all

lemma selected_plane:
  fixes g :: "'a \<Rightarrow> real" and msk :: "'m::{zero,ord} plane"
  assumes p: "shape2 H W p" and m: "shape2 H W msk"
  shows "sum_list (map g (map fst (filter snd
            (zip (concat p) (concat (map (map (\<lambda>m. 0 < m)) msk))))))
       = (\<Sum>(i, j) \<in> masked_pixels H W msk. g (p ! i ! j))"
proof -
  let ?b = "map (map (\<lambda>m. 0 < m)) msk"
  have lp: "length p = H" and lb: "length p = length ?b"
    and rp: "list_all (\<lambda>r. length r = W) p" and rb: "list_all (\<lambda>r. length r = W) ?b"
    using p m by (simp_all add: shape2_def list_all_iff)
  have rows: "\<And>i. i < H \<Longrightarrow> length (msk ! i) = W" and lm: "length msk = H"
    using m by (auto simp: shape2_def list_all_length)
  have "sum_list (map g (map fst (filter snd (zip (concat p) (concat ?b)))))
      = (\<Sum>i < H. \<Sum>j | j < W \<and> ?b ! i ! j. g (p ! i ! j))"
    using selected_rows[OF lb rp rb, of g] by (simp add: lp)
  also have "\<dots> = (\<Sum>i < H. \<Sum>j | j < W \<and> 0 < msk ! i ! j. g (p ! i ! j))"
  proof (intro sum.cong refl)
    fix i assume "i \<in> {..<H}"
    then have "{j. j < W \<and> ?b ! i ! j} = {j. j < W \<and> 0 < msk ! i ! j}"
      using rows lm by auto
    then show "{j. j < W \<and> ?b ! i ! j} = {j. j < W \<and> 0 < msk ! i ! j}" .
  qed
  also have "\<dots> = (\<Sum>(i, j) \<in> (SIGMA i:{..<H}. {j. j < W \<and> 0 < msk ! i ! j}). g (p ! i ! j))"
    by (intro sum.Sigma) auto
  also have "(SIGMA i:{..<H}. {j. j < W \<and> 0 < msk ! i ! j}) = masked_pixels H W msk"
    by (auto simp: masked_pixels_def)
  finally show ?thesis .
qed

lemma mean_selected:
  fixes msk :: "'m::{zero,ord} plane"
  assumes p: "shape2 H W p" and m: "shape2 H W msk"
  shows "mean (map fst (filter snd (zip (concat p) (concat (map (map (\<lambda>m. 0 < m)) msk)))))
       = masked_mean H W p msk"
proof -
  let ?sel = "\<lambda>p :: real plane. map fst (filter snd (zip (concat p) (concat (map (map (\<lambda>m. 0 < m)) msk))))"
  have s: "sum_list (?sel p) = (\<Sum>(i, j) \<in> masked_pixels H W msk. p ! i ! j)"
    using selected_plane[OF p m, of "\<lambda>x. x"] by simp
  have "real (length (?sel p)) = sum_list (map (\<lambda>_. 1) (?sel p))"
    by (rule real_length)
  also have "\<dots> = (\<Sum>(i, j) \<in> masked_pixels H W msk. 1)"
    using selected_plane[OF p m, of "\<lambda>_. 1"] by simp
  also have "\<dots> = real (card (masked_pixels H W msk))"
    by (simp add: case_prod_unfold)
  finally show ?thesis using s by (simp add: mean_def masked_mean_def)
qed


lemma map_length_shape2: "shape2 H W p \<Longrightarrow> map length p = replicate H W"
  by (auto simp: shape2_def list_all_length intro: nth_equalityI)

lemma bool_index_ok:
  fixes msk :: "'m::{zero,ord} plane"
  assumes "shape4 T D H W image_stack" and "shape2 H W msk"
  shows "bool_index image_stack (map (map (\<lambda>m. 0 < m)) msk) =
     Inr (map (map (\<lambda>p. map fst (filter snd
            (zip (concat p) (concat (map (map (\<lambda>m. 0 < m)) msk)))))) image_stack)"
proof -
  have "shape2 H W (map (map (\<lambda>m. 0 < m)) msk)"
    using assms(2) by (simp add: shape2_def list_all_iff)
  then have "map length (map (map (\<lambda>m. 0 < m)) msk) = replicate H W"
    by (rule map_length_shape2)
  moreover have "\<And>x p. x \<in> set image_stack \<Longrightarrow> p \<in> set x \<Longrightarrow> map length p = replicate H W"
    using assms(1) by (auto simp: shape4_def list_all_iff intro: map_length_shape2)
  ultimately have "list_all (list_all (\<lambda>p. map length p = map length (map (map (\<lambda>m. 0 < m)) msk)))
      image_stack"
    by (simp add: list_all_iff)
  then show ?thesis unfolding bool_index_def by (simp only: if_True)
qed

lemma transform_nonspatial:
  fixes msk :: "'m::{zero,ord} plane"
  assumes ns: "\<not> self_spatial_encoder self"
    and img: "shape4 T D H W image_stack" and m: "shape2 H W msk"
  shows "transform self r image_stack msk =
     Inr (Vectors (map (map (\<lambda>p. pixel_post self r (masked_mean H W p msk))) image_stack),
          MaskConst (- 1))"
proof -
  have planes: "\<And>x p. x \<in> set image_stack \<Longrightarrow> p \<in> set x \<Longrightarrow> shape2 H W p"
    using img by (auto simp: shape4_def list_all_iff)
  have means: "map (map mean) (map (map (\<lambda>p. map fst (filter snd
            (zip (concat p) (concat (map (map (\<lambda>m. 0 < m)) msk)))))) image_stack)
      = map (map (\<lambda>p. masked_mean H W p msk)) image_stack"
    unfolding map_map o_def
    using planes by (intro map_cong refl mean_selected[OF _ m]) auto
  have fin: "map_image (pixel_post self r)
        (Vectors (map (map (\<lambda>p. masked_mean H W p msk)) image_stack))
      = Vectors (map (map (\<lambda>p. pixel_post self r (masked_mean H W p msk))) image_stack)"
    by (simp add: o_def)
  show ?thesis
    unfolding transform_def
    by (simp only: ns not_False_eq_True if_True bool_index_ok[OF img m] sum.case means
        prod.case Let_def finish_image fin)
qed

text \<open>
  Claim C5. Without the spatial encoder, for an image stack of shape \<open>[T, D, H, W]\<close> and
  a mask of shape \<open>[H, W]\<close> with an entry above 0, \<open>transform\<close> returns the image of shape
  \<open>[T, D]\<close> whose entry \<open>(t, d)\<close> is the mean of the plane \<open>image_stack[t, d]\<close> over the
  pixels where the mask is positive, scaled by \<open>1e-4\<close> and normalized when that is enabled,
  and it returns \<open>-1\<close> as the mask. Each row of the image has \<open>D\<close> entries, whatever \<open>H\<close>
  and \<open>W\<close> are.
\<close>

theorem transform_nonspatial_mean:
  fixes msk :: "'m::{zero,ord} plane"
  assumes "\<not> self_spatial_encoder self"
    and "shape4 T D H W image_stack" and "shape2 H W msk"
    and "masked_pixels H W msk \<noteq> {}"
  shows "transform self r image_stack msk =
     Inr (Vectors (map (map (\<lambda>p. pixel_post self r (masked_mean H W p msk))) image_stack),
          MaskConst (- 1))
   \<and> length (map (map (\<lambda>p. pixel_post self r (masked_mean H W p msk))) image_stack) = T
   \<and> list_all (\<lambda>v. length v = D)
       (map (map (\<lambda>p. pixel_post self r (masked_mean H W p msk))) image_stack)"
  using transform_nonspatial[OF assms(1-3)] assms(2)
  by (simp add: shape4_def list_all_iff)

theorem transform_nonspatial_mean_witness:
  "shape4 1 2 2 2 [[[[1, 2], [3, 4]], [[10, 20], [30, 40::real]]]]
   \<and> shape2 2 2 [[1, 0], [0, 1::int]]
   \<and> masked_pixels 2 2 [[1, 0], [0, 1::int]] \<noteq> {}
   \<and> transform \<lparr>self_spatial_encoder = False, self_normalize = False, self_image_size = 32\<rparr>
        \<lparr>crop_h = 0, crop_w = 0, rot = 0, jitter_mean = 0, jitter_std = 0\<rparr>
        [[[[1, 2], [3, 4]], [[10, 20], [30, 40]]]] [[1, 0], [0, 1::int]]
      = Inr (Vectors [[1 / 4000, 1 / 400]], MaskConst (- 1))
   \<and> masked_mean 2 2 [[1, 2], [3, 4]] [[1, 0], [0, 1::int]] = 5 / 2
   \<and> masked_mean 2 2 [[10, 20], [30, 40]] [[1, 0], [0, 1::int]] = 25"
proof -
  let ?img = "[[[[1, 2], [3, 4]], [[10, 20], [30, 40::real]]]]"
  let ?msk = "[[1, 0], [0, 1::int]]"
  let ?self = "\<lparr>self_spatial_encoder = False, self_normalize = False, self_image_size = 32\<rparr>"
  let ?r = "\<lparr>crop_h = 0, crop_w = 0, rot = 0, jitter_mean = 0, jitter_std = 0\<rparr>"
  have a: "shape4 1 2 2 2 ?img" by (simp add: shape4_def shape2_def)
  have b: "shape2 2 2 ?msk" by (simp add: shape2_def)
  have "(0, 0) \<in> masked_pixels 2 2 ?msk" by (simp add: masked_pixels_def)
  then have c: "masked_pixels 2 2 ?msk \<noteq> {}" by blast
  have run: "transform ?self ?r ?img ?msk = Inr (Vectors [[1 / 4000, 1 / 400]], MaskConst (- 1))"
    by (simp add: transform_def bool_index_def mean_def)
  have "transform ?self ?r ?img ?msk =
      Inr (Vectors (map (map (\<lambda>p. pixel_post ?self ?r (masked_mean 2 2 p ?msk))) ?img),
           MaskConst (- 1))"
    using transform_nonspatial_mean[of ?self 1 2 2 2 ?img ?msk ?r, OF _ a b c] by simp
  then have "masked_mean 2 2 [[1, 2], [3, 4]] ?msk = 5 / 2"
    and "masked_mean 2 2 [[10, 20], [30, 40]] ?msk = 25"
    unfolding run by (simp_all add: pixel_post_def)
  then show ?thesis using a b c run by simp
qed


lemma map_image_comp: "map_image g (map_image k im) = map_image (\<lambda>x. g (k x)) im"
  by (cases im) (simp_all add: o_def)

text \<open>
  Claim C8, as amended. With normalization, \<open>transform\<close> returns the image that it
  returns without normalization (the image scaled by \<open>1e-4\<close>) with every entry \<open>y\<close>
  replaced by \<open>(y - (0.1014 + jitter_mean)) / (0.1171 + jitter_std)\<close>: one mean and one
  standard deviation for all channels, each with one Gaussian sample of the call added.
\<close>

theorem normalize_same_for_all_channels:
  "transform (self\<lparr>self_normalize := True\<rparr>) r image_stack msk =
     map_sum id
       (\<lambda>(image, m).
          (map_image (\<lambda>y. (y - (0.1014 + jitter_mean r)) / (0.1171 + jitter_std r)) image, m))
       (transform (self\<lparr>self_normalize := False\<rparr>) r image_stack msk)"
proof (cases "self_spatial_encoder self")
  case True
  then show ?thesis
    by (simp add: transform_def Let_def split_beta map_image_comp)
next
  case False
  then show ?thesis
    by (cases "bool_index image_stack (map (map (\<lambda>m. 0 < m)) msk)")
       (simp_all add: transform_def Let_def map_image_comp)
qed

text \<open>
  Claim C8 as stated says that the constants differ per channel. Two channels that hold
  the same value are normalized to the same value, at the value 0 and at the value 10000:
  the mean subtracted and the standard deviation divided by are those of both channels.
\<close>

theorem per_channel_constants_counterexample:
  "transform \<lparr>self_spatial_encoder = False, self_normalize = True, self_image_size = 32\<rparr>
     \<lparr>crop_h = 0, crop_w = 0, rot = 0, jitter_mean = 0, jitter_std = 0\<rparr>
     [[[[0]], [[0]]]] [[1::int]]
   = Inr (Vectors [[- (1014 / 1171), - (1014 / 1171)]], MaskConst (- 1))
   \<and> transform \<lparr>self_spatial_encoder = False, self_normalize = True, self_image_size = 32\<rparr>
     \<lparr>crop_h = 0, crop_w = 0, rot = 0, jitter_mean = 0, jitter_std = 0\<rparr>
     [[[[10000]], [[10000]]]] [[1::int]]
   = Inr (Vectors [[8986 / 1171, 8986 / 1171]], MaskConst (- 1))"
  by (simp add: transform_def bool_index_def mean_def)

section \<open>Early stopping and checkpoints\<close>

lemma improving_0: "improving loss 0"
  by (simp add: improving_def)

lemma streak_ends_run: "streak loss e = q \<longleftrightarrow> ends_run loss q e"
proof (induction e arbitrary: q)
  case 0
  then show ?case by (auto simp: ends_run_def improving_0)
next
  case (Suc e)
  show ?case
  proof (cases "improving loss (Suc e)")
    case True
    have "\<not> ends_run loss (Suc q') (Suc e)" for q'
      using True by (auto simp: ends_run_def intro!: exI[of _ "Suc e"])
    moreover have "ends_run loss 0 (Suc e)"
      using True by (auto simp: ends_run_def)
    ultimately show ?thesis using True by (cases q) auto
  next
    case False
    show ?thesis
    proof (cases q)
      case 0
      then show ?thesis using False by (simp add: ends_run_def)
    next
      case (Suc q')
      have "ends_run loss (Suc q') (Suc e) \<longleftrightarrow> ends_run loss q' e"
        using False by (auto simp: ends_run_def le_Suc_eq)
      then show ?thesis using False Suc Suc.IH[of q'] by simp
    qed
  qed
qed

lemma below_last_best:
  "0 < k \<Longrightarrow> v < loss (last_best loss k) \<longleftrightarrow> (\<forall>j < k. v < loss j)"
proof (induction k arbitrary: v)
  case 0
  then show ?case by simp
next
  case (Suc k)
  show ?case
  proof (cases "k = 0")
    case True
    then show ?thesis by simp
  next
    case False
    then have IH: "\<And>v. v < loss (last_best loss k) \<longleftrightarrow> (\<forall>j < k. v < loss j)"
      using Suc.IH by simp
    show ?thesis
    proof (cases "improving loss k")
      case True
      then show ?thesis by (auto simp: improving_def less_Suc_eq)
    next
      case nimp: False
      then obtain j where j: "j < k" "loss j \<le> loss k"
        by (auto simp: improving_def not_less)
      then show ?thesis using nimp IH by (auto simp: less_Suc_eq)
    qed
  qed
qed

lemma below_best_state_after:
  "below_best (losses run k) (best_loss (state_after a run st0 k False)) \<longleftrightarrow>
   improving (losses run) k"
proof (cases "k = 0")
  case True
  then show ?thesis by (simp add: state_after_def below_best_def improving_0)
next
  case False
  then show ?thesis
    using below_last_best[of k "losses run k" "losses run"]
    by (simp add: state_after_def below_best_def improving_def)
qed


lemma streak_step:
  "streak loss k = (if improving loss k then 0 else Suc (streak loss (k - 1)))"
  by (cases k) (simp_all add: improving_0)

lemma files_after_step:
  assumes "checkpoint_epoch a \<noteq> 0"
  shows "(if int k mod checkpoint_epoch a = 0 \<and> k \<noteq> 0
          then (files (state_after a run st0 k False))(EpochModel k \<mapsto> checkpoint_of run k (Suc k))
          else files (state_after a run st0 k False))
         = files (state_after a run st0 (Suc k) False)"
proof
  fix p
  show "(if int k mod checkpoint_epoch a = 0 \<and> k \<noteq> 0
          then (files (state_after a run st0 k False))(EpochModel k \<mapsto> checkpoint_of run k (Suc k))
          else files (state_after a run st0 k False)) p
         = files (state_after a run st0 (Suc k) False) p"
    by (cases p) (auto simp: state_after_def less_Suc_eq)
qed

lemma files_after_stop:
  "files (state_after a run st0 (Suc k) True) = files (state_after a run st0 k False)"
  by (auto simp: state_after_def fun_eq_iff split: path.splits)

lemma train_epochs_step:
  "train_epochs a run (k # rest) (state_after a run st0 k False) =
     (if int (streak (losses run) k) = patience a
      then Inr (state_after a run st0 (Suc k) True)
      else if checkpoint_epoch a = 0 then Inl ZeroDivisionError
      else train_epochs a run rest (state_after a run st0 (Suc k) False))"
proof -
  define st1 where "st1 = (state_after a run st0 k False)\<lparr>log_scores :=
      log_scores (state_after a run st0 k False) @ [scores (run k)]\<rparr>"
  define st2 where "st2 = (if below_best (valid_loss (run k)) (best_loss st1)
                then st1\<lparr>best_loss := Some (valid_loss (run k)),
                        best_epoch := k,
                        best_model := Some (model_state (run k)),
                        best_optimizer := Some (optimizer_state (run k)),
                        patience_count := 0\<rparr>
                else st1\<lparr>patience_count := patience_count st1 + 1\<rparr>)"
  have bb: "below_best (valid_loss (run k)) (best_loss st1) \<longleftrightarrow> improving (losses run) k"
    using below_best_state_after[of run k a st0] by (simp add: st1_def losses_def)
  have k0: "\<not> improving (losses run) k \<Longrightarrow> k \<noteq> 0"
    by (cases k) (auto simp: improving_0)
  have st2: "st2 = (state_after a run st0 (Suc k) False)\<lparr>files := files (state_after a run st0 k False)\<rparr>"
    unfolding st2_def bb
    by (cases "improving (losses run) k")
       (auto simp: st1_def state_after_def streak_step[of _ k] losses_def dest: k0)
  have pc: "patience_count st2 = streak (losses run) k"
    by (simp add: st2 state_after_def)
  have lg: "log_scores st2 = map (\<lambda>i. scores (run i)) [0..<Suc k]"
    by (simp add: st2 state_after_def)
  have stop: "st2\<lparr>early_stop := True\<rparr> = state_after a run st0 (Suc k) True"
    by (auto simp: st2 state_after_def fun_eq_iff split: path.splits)
  have ck: "\<lparr>ck_model_state = model_state (run k), ck_optimizer_state = optimizer_state (run k),
        ck_epoch = k, ck_log = log_scores st2\<rparr> = checkpoint_of run k (Suc k)"
    by (simp add: lg checkpoint_of_def)
  have go: "(if int k mod checkpoint_epoch a = 0 \<and> k \<noteq> 0
        then st2\<lparr>files := (files st2)(EpochModel k \<mapsto> checkpoint_of run k (Suc k))\<rparr>
        else st2) = state_after a run st0 (Suc k) False"
    if "checkpoint_epoch a \<noteq> 0"
    using files_after_step[OF that, of k run st0]
    by (auto simp: st2 state_after_def split: if_splits)
  have "train_epochs a run (k # rest) (state_after a run st0 k False) =
     (if int (patience_count st2) = patience a then Inr (st2\<lparr>early_stop := True\<rparr>)
      else if checkpoint_epoch a = 0 then Inl ZeroDivisionError
      else train_epochs a run rest
             (if int k mod checkpoint_epoch a = 0 \<and> k \<noteq> 0
              then st2\<lparr>files := (files st2)(EpochModel k \<mapsto> checkpoint_of run k (Suc k))\<rparr>
              else st2))"
    by (simp only: train_epochs.simps Let_def st1_def[symmetric] st2_def[symmetric] ck)
  then show ?thesis using go by (simp add: pc stop)
qed


lemma train_epochs_from:
  assumes N: "checkpoint_epoch a \<noteq> 0"
  shows "k \<le> n \<Longrightarrow>
    train_epochs a run [k..<n] (state_after a run st0 k False) =
      Inr (case find (\<lambda>e. int (streak (losses run) e) = patience a) [k..<n] of
             None \<Rightarrow> state_after a run st0 n False
           | Some s \<Rightarrow> state_after a run st0 (Suc s) True)"
proof (induction "n - k" arbitrary: k)
  case 0
  then show ?case by simp
next
  case (Suc d)
  then have kn: "k < n" and d: "d = n - Suc k" and le: "Suc k \<le> n" by simp_all
  have u: "[k..<n] = k # [Suc k..<n]" using kn by (rule upt_conv_Cons)
  show ?case
    unfolding u train_epochs_step
    using N Suc.hyps(1)[OF d le] by simp
qed

lemma reset_fold_state_after: "reset_fold st0 = state_after a run st0 0 False"
  by (auto simp: reset_fold_def state_after_def fun_eq_iff split: path.splits)

lemma train_epochs_result:
  assumes "checkpoint_epoch a \<noteq> 0"
  shows "train_epochs a run [0..<n] (reset_fold st0) =
      Inr (case stop_epoch (losses run) (patience a) n of
             None \<Rightarrow> state_after a run st0 n False
           | Some s \<Rightarrow> state_after a run st0 (Suc s) True)"
  unfolding stop_epoch_def reset_fold_state_after[of st0 a run]
  by (rule train_epochs_from[OF assms]) simp

lemma stop_epoch_Some:
  "stop_epoch loss p n = Some s \<longleftrightarrow>
     s < n \<and> 0 \<le> p \<and> ends_run loss (nat p) s \<and> (\<forall>e < s. \<not> ends_run loss (nat p) e)"
proof -
  have e: "int (streak loss e) = p \<longleftrightarrow> 0 \<le> p \<and> ends_run loss (nat p) e" for e
    using streak_ends_run[of loss e "nat p"] by auto
  show ?thesis
    unfolding stop_epoch_def find_Some_iff
    by (auto simp: e)
qed

lemma stop_epoch_None:
  "stop_epoch loss p n = None \<longleftrightarrow> (\<forall>e < n. int (streak loss e) \<noteq> p)"
  by (auto simp: stop_epoch_def find_None_iff)


text \<open>
  Claim C4. In every fold, for every sequence of validation losses: after each epoch the
  patience counter is the streak of that epoch, which is 0 after an epoch that improves on
  the best loss so far and one more than before after any other epoch. The loop takes its
  \<open>break\<close> at the first epoch whose streak equals \<open>args.patience\<close>, and at no other; the
  epochs after it do not run. That epoch is the first one that ends a run of exactly
  \<open>patience\<close> consecutive epochs without improvement. (The \<open>break\<close> can fall on the last
  epoch of \<open>range(max_epochs)\<close>.)
\<close>

theorem early_stop_after_patience:
  assumes "checkpoint_epoch a \<noteq> 0"
  shows "\<exists>st. train_epochs a run [0..<nat (max_epochs a)] (reset_fold st0) = Inr st
     \<and> (early_stop st \<longleftrightarrow>
          (\<exists>s. stop_epoch (losses run) (patience a) (nat (max_epochs a)) = Some s))
     \<and> length (log_scores st) = epochs_run (losses run) (patience a) (nat (max_epochs a))
     \<and> (\<forall>k. length (log_scores st) = Suc k \<longrightarrow> patience_count st = streak (losses run) k)
     \<and> (\<forall>s. stop_epoch (losses run) (patience a) (nat (max_epochs a)) = Some s \<longleftrightarrow>
            s < nat (max_epochs a) \<and> 0 \<le> patience a \<and>
            ends_run (losses run) (nat (patience a)) s \<and>
            (\<forall>e < s. \<not> ends_run (losses run) (nat (patience a)) e))"
proof -
  define n where "n = nat (max_epochs a)"
  define st where "st = (case stop_epoch (losses run) (patience a) n of
             None \<Rightarrow> state_after a run st0 n False
           | Some s \<Rightarrow> state_after a run st0 (Suc s) True)"
  have r: "train_epochs a run [0..<n] (reset_fold st0) = Inr st"
    unfolding st_def by (rule train_epochs_result[OF assms])
  have e: "early_stop st \<longleftrightarrow> (\<exists>s. stop_epoch (losses run) (patience a) n = Some s)"
    by (simp add: st_def state_after_def split: option.splits)
  have l: "length (log_scores st) = epochs_run (losses run) (patience a) n"
    by (simp add: st_def state_after_def epochs_run_def split: option.splits)
  have c: "patience_count st = streak (losses run) k" if "length (log_scores st) = Suc k" for k
    using that by (auto simp: st_def state_after_def split: option.splits)
  show ?thesis
    unfolding n_def[symmetric]
    using r e l c stop_epoch_Some[of "losses run" "patience a" n] by blast
qed


lemma upt_0_5: "[0..<5] = [0, 1, 2, 3, 4]"
  by (simp add: upt_rec)

theorem early_stop_after_patience_witness:
  "checkpoint_epoch \<lparr>max_epochs = 5, patience = 2, checkpoint_epoch = 1\<rparr> \<noteq> 0
   \<and> train_epochs \<lparr>max_epochs = 5, patience = 2, checkpoint_epoch = 1\<rparr>
        ((!) [\<lparr>model_state = 100 :: nat, optimizer_state = 200 :: nat, valid_loss = 3, scores = 3 :: real\<rparr>,
              \<lparr>model_state = 101, optimizer_state = 201, valid_loss = 2, scores = 2\<rparr>,
              \<lparr>model_state = 102, optimizer_state = 202, valid_loss = 4, scores = 4\<rparr>,
              \<lparr>model_state = 103, optimizer_state = 203, valid_loss = 5, scores = 5\<rparr>,
              \<lparr>model_state = 104, optimizer_state = 204, valid_loss = 1, scores = 1\<rparr>])
        [0..<nat (max_epochs \<lparr>max_epochs = 5, patience = 2, checkpoint_epoch = 1\<rparr>)]
        (reset_fold \<lparr>best_loss = None, best_epoch = 0, best_model = None, best_optimizer = None,
           patience_count = 0, log_scores = [], files = Map.empty, early_stop = False\<rparr>)
      = Inr \<lparr>best_loss = Some 2, best_epoch = 1, best_model = Some 101, best_optimizer = Some 201,
           patience_count = 2, log_scores = [3, 2, 4, 5],
           files = [EpochModel 1 \<mapsto> \<lparr>ck_model_state = 101, ck_optimizer_state = 201, ck_epoch = 1, ck_log = [3, 2]\<rparr>,
                    EpochModel 2 \<mapsto> \<lparr>ck_model_state = 102, ck_optimizer_state = 202, ck_epoch = 2, ck_log = [3, 2, 4]\<rparr>],
           early_stop = True\<rparr>
   \<and> stop_epoch (losses ((!) [\<lparr>model_state = 100 :: nat, optimizer_state = 200 :: nat, valid_loss = 3, scores = 3 :: real\<rparr>,
              \<lparr>model_state = 101, optimizer_state = 201, valid_loss = 2, scores = 2\<rparr>,
              \<lparr>model_state = 102, optimizer_state = 202, valid_loss = 4, scores = 4\<rparr>,
              \<lparr>model_state = 103, optimizer_state = 203, valid_loss = 5, scores = 5\<rparr>,
              \<lparr>model_state = 104, optimizer_state = 204, valid_loss = 1, scores = 1\<rparr>])) 2 5 = Some 3
   \<and> ends_run (losses ((!) [\<lparr>model_state = 100 :: nat, optimizer_state = 200 :: nat, valid_loss = 3, scores = 3 :: real\<rparr>,
              \<lparr>model_state = 101, optimizer_state = 201, valid_loss = 2, scores = 2\<rparr>,
              \<lparr>model_state = 102, optimizer_state = 202, valid_loss = 4, scores = 4\<rparr>,
              \<lparr>model_state = 103, optimizer_state = 203, valid_loss = 5, scores = 5\<rparr>,
              \<lparr>model_state = 104, optimizer_state = 204, valid_loss = 1, scores = 1\<rparr>])) 2 3"
proof -
  let ?a = "\<lparr>max_epochs = 5, patience = 2, checkpoint_epoch = 1\<rparr>"
  let ?run = "(!) [\<lparr>model_state = 100 :: nat, optimizer_state = 200 :: nat, valid_loss = 3, scores = 3 :: real\<rparr>,
              \<lparr>model_state = 101, optimizer_state = 201, valid_loss = 2, scores = 2\<rparr>,
              \<lparr>model_state = 102, optimizer_state = 202, valid_loss = 4, scores = 4\<rparr>,
              \<lparr>model_state = 103, optimizer_state = 203, valid_loss = 5, scores = 5\<rparr>,
              \<lparr>model_state = 104, optimizer_state = 204, valid_loss = 1, scores = 1\<rparr>]"
  let ?init = "\<lparr>best_loss = None, best_epoch = 0, best_model = None :: nat option,
           best_optimizer = None :: nat option,
           patience_count = 0, log_scores = [] :: real list, files = Map.empty, early_stop = False\<rparr>"
  let ?final = "\<lparr>best_loss = Some 2, best_epoch = 1, best_model = Some (101 :: nat), best_optimizer = Some (201 :: nat),
           patience_count = 2, log_scores = [3, 2, 4, 5 :: real],
           files = [EpochModel 1 \<mapsto> \<lparr>ck_model_state = 101, ck_optimizer_state = 201, ck_epoch = 1, ck_log = [3, 2]\<rparr>,
                    EpochModel 2 \<mapsto> \<lparr>ck_model_state = 102, ck_optimizer_state = 202, ck_epoch = 2, ck_log = [3, 2, 4]\<rparr>],
           early_stop = True\<rparr>"
  have h: "checkpoint_epoch ?a \<noteq> 0" by simp
  have run: "train_epochs ?a ?run [0..<nat (max_epochs ?a)] (reset_fold ?init) = Inr ?final"
    by (simp add: upt_0_5 reset_fold_def below_best_def)
  from early_stop_after_patience[OF h, of ?run ?init]
  obtain st where st: "train_epochs ?a ?run [0..<nat (max_epochs ?a)] (reset_fold ?init) = Inr st"
    and len: "length (log_scores st) = epochs_run (losses ?run) (patience ?a) (nat (max_epochs ?a))"
    and stop: "\<And>s. stop_epoch (losses ?run) (patience ?a) (nat (max_epochs ?a)) = Some s \<longleftrightarrow>
            s < nat (max_epochs ?a) \<and> 0 \<le> patience ?a \<and>
            ends_run (losses ?run) (nat (patience ?a)) s \<and>
            (\<forall>e < s. \<not> ends_run (losses ?run) (nat (patience ?a)) e)"
    by blast
  have "st = ?final" using st run by simp
  then have "epochs_run (losses ?run) 2 5 = 4" using len by simp
  then have s3: "stop_epoch (losses ?run) 2 5 = Some 3"
    by (auto simp: epochs_run_def split: option.splits)
  then have "ends_run (losses ?run) 2 3" using stop[of 3] by simp
  then show ?thesis using h run s3 by simp
qed

lemma last_best_props:
  "0 < m \<Longrightarrow>
     improving loss (last_best loss m) \<and> last_best loss m < m \<and>
     (\<forall>e. last_best loss m < e \<and> e < m \<longrightarrow> \<not> improving loss e)"
proof (induction m)
  case 0
  then show ?case by simp
next
  case (Suc m)
  show ?case
  proof (cases "improving loss m")
    case True
    then show ?thesis by auto
  next
    case False
    then have "0 < m" by (cases m) (auto simp: improving_0)
    then show ?thesis using Suc.IH False by (auto simp: less_Suc_eq)
  qed
qed

lemma train_fold_result:
  assumes N: "checkpoint_epoch a \<noteq> 0" and n: "0 < max_epochs a"
  shows "train_fold a run fold_ix st0 =
     Inr ((case stop_epoch (losses run) (patience a) (nat (max_epochs a)) of
             None \<Rightarrow> state_after a run st0 (nat (max_epochs a)) False
           | Some s \<Rightarrow> state_after a run st0 (Suc s) True)
          \<lparr>files :=
             (files (case stop_epoch (losses run) (patience a) (nat (max_epochs a)) of
                None \<Rightarrow> state_after a run st0 (nat (max_epochs a)) False
              | Some s \<Rightarrow> state_after a run st0 (Suc s) True))
             (BestModelFold fold_ix \<mapsto>
                checkpoint_of run
                  (last_best (losses run)
                     (epochs_run (losses run) (patience a) (nat (max_epochs a))))
                  (epochs_run (losses run) (patience a) (nat (max_epochs a))))\<rparr>)"
proof -
  have "0 < nat (max_epochs a)" using n by simp
  then show ?thesis
    unfolding train_fold_def train_epochs_result[OF N]
    by (auto simp: state_after_def epochs_run_def checkpoint_of_def split: option.splits)
qed

text \<open>
  Claim C3, as amended. In every fold that runs at least one epoch, with a non-zero
  \<open>checkpoint_epoch\<close>: the file \<open>epoch_{e}_model.pt\<close> is written, with the model and
  optimizer states of the epoch \<open>e\<close>, for exactly the epochs \<open>e\<close> that are positive multiples
  of \<open>checkpoint_epoch\<close> and come before the epoch that stops the fold early (all epochs
  when none does); and at the end of the fold \<open>best_model_fold_{fold}.pt\<close> holds the model
  and optimizer states of the last epoch that attained a new best validation loss. No
  other file changes.
\<close>

theorem checkpoints_of_fold:
  assumes "checkpoint_epoch a \<noteq> 0" and "0 < max_epochs a"
  shows "\<exists>st. train_fold a run fold_ix st0 = Inr st
     \<and> (\<forall>e. files st (EpochModel e) =
            (if 0 < e \<and> e < epochs_checkpointed (losses run) (patience a) (nat (max_epochs a))
                \<and> int e mod checkpoint_epoch a = 0
             then Some (checkpoint_of run e (Suc e))
             else files st0 (EpochModel e)))
     \<and> files st (BestModelFold fold_ix) =
          Some (checkpoint_of run
                  (last_best (losses run)
                     (epochs_run (losses run) (patience a) (nat (max_epochs a))))
                  (epochs_run (losses run) (patience a) (nat (max_epochs a))))
     \<and> (\<forall>f. f \<noteq> fold_ix \<longrightarrow> files st (BestModelFold f) = files st0 (BestModelFold f))
     \<and> improving (losses run)
          (last_best (losses run) (epochs_run (losses run) (patience a) (nat (max_epochs a))))
     \<and> last_best (losses run) (epochs_run (losses run) (patience a) (nat (max_epochs a)))
          < epochs_run (losses run) (patience a) (nat (max_epochs a))
     \<and> (\<forall>e. last_best (losses run) (epochs_run (losses run) (patience a) (nat (max_epochs a))) < e
            \<and> e < epochs_run (losses run) (patience a) (nat (max_epochs a))
            \<longrightarrow> \<not> improving (losses run) e)"
proof -
  define n where "n = nat (max_epochs a)"
  define m where "m = epochs_run (losses run) (patience a) n"
  have "0 < n" using assms(2) by (simp add: n_def)
  then have m0: "0 < m" by (simp add: m_def epochs_run_def split: option.splits)
  note lb = last_best_props[OF m0, of "losses run"]
  note r = train_fold_result[OF assms, of run fold_ix st0, folded n_def, folded m_def]
  have f1: "files (projr (train_fold a run fold_ix st0)) (EpochModel e) =
            (if 0 < e \<and> e < epochs_checkpointed (losses run) (patience a) n
                \<and> int e mod checkpoint_epoch a = 0
             then Some (checkpoint_of run e (Suc e))
             else files st0 (EpochModel e))" for e
    unfolding r by (simp add: state_after_def epochs_checkpointed_def split: option.splits)
  have f2: "files (projr (train_fold a run fold_ix st0)) (BestModelFold fold_ix) =
      Some (checkpoint_of run (last_best (losses run) m) m)"
    unfolding r by simp
  have f3: "files (projr (train_fold a run fold_ix st0)) (BestModelFold f) = files st0 (BestModelFold f)"
    if "f \<noteq> fold_ix" for f
    unfolding r using that by (simp add: state_after_def split: option.splits)
  have "train_fold a run fold_ix st0 = Inr (projr (train_fold a run fold_ix st0))"
    unfolding r by simp
  then show ?thesis
    unfolding n_def[symmetric] m_def[symmetric]
    using f1 f2 f3 lb by blast
qed


text \<open>
  Claim C3 as stated fails on a fold with patience 1, \<open>checkpoint_epoch\<close> 1 and the
  validation losses 3, 2, 5: the epoch 2 runs and is a positive multiple of 1, but it takes
  the \<open>break\<close>, which comes before the checkpoint, and \<open>epoch_2_model.pt\<close> is not written;
  the epoch 0 attains a new best loss, and no file holds its states.
\<close>

theorem checkpoint_every_multiple_counterexample:
  "train_fold \<lparr>max_epochs = 5, patience = 1, checkpoint_epoch = 1\<rparr>
        ((!) [\<lparr>model_state = 100 :: nat, optimizer_state = 200 :: nat, valid_loss = 3, scores = 3 :: real\<rparr>,
              \<lparr>model_state = 101, optimizer_state = 201, valid_loss = 2, scores = 2\<rparr>,
              \<lparr>model_state = 102, optimizer_state = 202, valid_loss = 5, scores = 5\<rparr>,
              \<lparr>model_state = 103, optimizer_state = 203, valid_loss = 1, scores = 1\<rparr>,
              \<lparr>model_state = 104, optimizer_state = 204, valid_loss = 1, scores = 1\<rparr>]) 0 \<lparr>best_loss = None, best_epoch = 0, best_model = None, best_optimizer = None,
           patience_count = 0, log_scores = [], files = Map.empty, early_stop = False\<rparr>
      = Inr \<lparr>best_loss = Some 2, best_epoch = 1, best_model = Some 101, best_optimizer = Some 201,
           patience_count = 1, log_scores = [3, 2, 5],
           files = [EpochModel 1 \<mapsto> \<lparr>ck_model_state = 101, ck_optimizer_state = 201, ck_epoch = 1, ck_log = [3, 2]\<rparr>,
                    BestModelFold 0 \<mapsto> \<lparr>ck_model_state = 101, ck_optimizer_state = 201, ck_epoch = 1, ck_log = [3, 2, 5]\<rparr>],
           early_stop = True\<rparr>
   \<and> files (projr (train_fold \<lparr>max_epochs = 5, patience = 1, checkpoint_epoch = 1\<rparr>
        ((!) [\<lparr>model_state = 100 :: nat, optimizer_state = 200 :: nat, valid_loss = 3, scores = 3 :: real\<rparr>,
              \<lparr>model_state = 101, optimizer_state = 201, valid_loss = 2, scores = 2\<rparr>,
              \<lparr>model_state = 102, optimizer_state = 202, valid_loss = 5, scores = 5\<rparr>,
              \<lparr>model_state = 103, optimizer_state = 203, valid_loss = 1, scores = 1\<rparr>,
              \<lparr>model_state = 104, optimizer_state = 204, valid_loss = 1, scores = 1\<rparr>]) 0 \<lparr>best_loss = None, best_epoch = 0, best_model = None, best_optimizer = None,
           patience_count = 0, log_scores = [], files = Map.empty, early_stop = False\<rparr>)) (EpochModel 2) = None"
  by (simp add: train_fold_def upt_0_5 reset_fold_def below_best_def)

theorem checkpoints_of_fold_witness:
  "checkpoint_epoch \<lparr>max_epochs = 5, patience = 3, checkpoint_epoch = 2\<rparr> \<noteq> 0
   \<and> 0 < max_epochs \<lparr>max_epochs = 5, patience = 3, checkpoint_epoch = 2\<rparr>
   \<and> train_fold \<lparr>max_epochs = 5, patience = 3, checkpoint_epoch = 2\<rparr>
        ((!) [\<lparr>model_state = 100 :: nat, optimizer_state = 200 :: nat, valid_loss = 3, scores = 3 :: real\<rparr>,
              \<lparr>model_state = 101, optimizer_state = 201, valid_loss = 2, scores = 2\<rparr>,
              \<lparr>model_state = 102, optimizer_state = 202, valid_loss = 4, scores = 4\<rparr>,
              \<lparr>model_state = 103, optimizer_state = 203, valid_loss = 1, scores = 1\<rparr>,
              \<lparr>model_state = 104, optimizer_state = 204, valid_loss = 5, scores = 5\<rparr>]) 7 \<lparr>best_loss = None, best_epoch = 0, best_model = None, best_optimizer = None,
           patience_count = 0, log_scores = [], files = Map.empty, early_stop = False\<rparr>
      = Inr \<lparr>best_loss = Some 1, best_epoch = 3, best_model = Some 103, best_optimizer = Some 203,
           patience_count = 1, log_scores = [3, 2, 4, 1, 5],
           files = [EpochModel 2 \<mapsto> \<lparr>ck_model_state = 102, ck_optimizer_state = 202, ck_epoch = 2, ck_log = [3, 2, 4]\<rparr>,
                    EpochModel 4 \<mapsto> \<lparr>ck_model_state = 104, ck_optimizer_state = 204, ck_epoch = 4, ck_log = [3, 2, 4, 1, 5]\<rparr>,
                    BestModelFold 7 \<mapsto> \<lparr>ck_model_state = 103, ck_optimizer_state = 203, ck_epoch = 3, ck_log = [3, 2, 4, 1, 5]\<rparr>],
           early_stop = False\<rparr>
   \<and> checkpoint_of ((!) [\<lparr>model_state = 100 :: nat, optimizer_state = 200 :: nat, valid_loss = 3, scores = 3 :: real\<rparr>,
              \<lparr>model_state = 101, optimizer_state = 201, valid_loss = 2, scores = 2\<rparr>,
              \<lparr>model_state = 102, optimizer_state = 202, valid_loss = 4, scores = 4\<rparr>,
              \<lparr>model_state = 103, optimizer_state = 203, valid_loss = 1, scores = 1\<rparr>,
              \<lparr>model_state = 104, optimizer_state = 204, valid_loss = 5, scores = 5\<rparr>])
        (last_best (losses ((!) [\<lparr>model_state = 100 :: nat, optimizer_state = 200 :: nat, valid_loss = 3, scores = 3 :: real\<rparr>,
              \<lparr>model_state = 101, optimizer_state = 201, valid_loss = 2, scores = 2\<rparr>,
              \<lparr>model_state = 102, optimizer_state = 202, valid_loss = 4, scores = 4\<rparr>,
              \<lparr>model_state = 103, optimizer_state = 203, valid_loss = 1, scores = 1\<rparr>,
              \<lparr>model_state = 104, optimizer_state = 204, valid_loss = 5, scores = 5\<rparr>])) (epochs_run (losses ((!) [\<lparr>model_state = 100 :: nat, optimizer_state = 200 :: nat, valid_loss = 3, scores = 3 :: real\<rparr>,
              \<lparr>model_state = 101, optimizer_state = 201, valid_loss = 2, scores = 2\<rparr>,
              \<lparr>model_state = 102, optimizer_state = 202, valid_loss = 4, scores = 4\<rparr>,
              \<lparr>model_state = 103, optimizer_state = 203, valid_loss = 1, scores = 1\<rparr>,
              \<lparr>model_state = 104, optimizer_state = 204, valid_loss = 5, scores = 5\<rparr>])) 3 5))
        (epochs_run (losses ((!) [\<lparr>model_state = 100 :: nat, optimizer_state = 200 :: nat, valid_loss = 3, scores = 3 :: real\<rparr>,
              \<lparr>model_state = 101, optimizer_state = 201, valid_loss = 2, scores = 2\<rparr>,
              \<lparr>model_state = 102, optimizer_state = 202, valid_loss = 4, scores = 4\<rparr>,
              \<lparr>model_state = 103, optimizer_state = 203, valid_loss = 1, scores = 1\<rparr>,
              \<lparr>model_state = 104, optimizer_state = 204, valid_loss = 5, scores = 5\<rparr>])) 3 5)
      = \<lparr>ck_model_state = 103, ck_optimizer_state = 203, ck_epoch = 3, ck_log = [3, 2, 4, 1, 5]\<rparr>"
proof -
  let ?a = "\<lparr>max_epochs = 5, patience = 3, checkpoint_epoch = 2\<rparr>"
  let ?run = "((!) [\<lparr>model_state = 100 :: nat, optimizer_state = 200 :: nat, valid_loss = 3, scores = 3 :: real\<rparr>,
              \<lparr>model_state = 101, optimizer_state = 201, valid_loss = 2, scores = 2\<rparr>,
              \<lparr>model_state = 102, optimizer_state = 202, valid_loss = 4, scores = 4\<rparr>,
              \<lparr>model_state = 103, optimizer_state = 203, valid_loss = 1, scores = 1\<rparr>,
              \<lparr>model_state = 104, optimizer_state = 204, valid_loss = 5, scores = 5\<rparr>])"
  let ?init = "\<lparr>best_loss = None, best_epoch = 0, best_model = None :: nat option,
           best_optimizer = None :: nat option,
           patience_count = 0, log_scores = [] :: real list, files = Map.empty, early_stop = False\<rparr>"
  let ?final = "\<lparr>best_loss = Some 1, best_epoch = 3, best_model = Some (103 :: nat), best_optimizer = Some (203 :: nat),
           patience_count = 1, log_scores = [3, 2, 4, 1, 5 :: real],
           files = [EpochModel 2 \<mapsto> \<lparr>ck_model_state = 102, ck_optimizer_state = 202, ck_epoch = 2, ck_log = [3, 2, 4]\<rparr>,
                    EpochModel 4 \<mapsto> \<lparr>ck_model_state = 104, ck_optimizer_state = 204, ck_epoch = 4, ck_log = [3, 2, 4, 1, 5]\<rparr>,
                    BestModelFold 7 \<mapsto> \<lparr>ck_model_state = 103, ck_optimizer_state = 203, ck_epoch = 3, ck_log = [3, 2, 4, 1, 5]\<rparr>],
           early_stop = False\<rparr>"
  have h1: "checkpoint_epoch ?a \<noteq> 0" and h2: "0 < max_epochs ?a" by simp_all
  have run: "train_fold ?a ?run 7 ?init = Inr ?final"
    by (simp add: train_fold_def upt_0_5 reset_fold_def below_best_def)
  from checkpoints_of_fold[OF h1 h2, of ?run 7 ?init]
  obtain st where st: "train_fold ?a ?run 7 ?init = Inr st"
    and best: "files st (BestModelFold 7) =
          Some (checkpoint_of ?run
                  (last_best (losses ?run)
                     (epochs_run (losses ?run) (patience ?a) (nat (max_epochs ?a))))
                  (epochs_run (losses ?run) (patience ?a) (nat (max_epochs ?a))))"
    by blast
  have "st = ?final" using st run by simp
  then have "checkpoint_of ?run (last_best (losses ?run) (epochs_run (losses ?run) 3 5))
        (epochs_run (losses ?run) 3 5)
      = \<lparr>ck_model_state = 103, ck_optimizer_state = 203, ck_epoch = 3, ck_log = [3, 2, 4, 1, 5]\<rparr>"
    using best by simp
  then show ?thesis using h1 h2 run by simp
qed

section \<open>What the prediction export writes\<close>

text \<open>
  Claim C9. When no file exists at the path of the checkpoint, \<open>save_predictions\<close>
  returns without an error, and all it does is print the line that no best model was
  found: the files, the model's weights and its mode are as before.
\<close>

theorem save_predictions_without_checkpoint:
  assumes "fs world save_model_path = None"
  shows "save_predictions save_model_path forward loader label_ids label_names a world =
     Inr (world\<lparr>printed := printed world @ [NoBestModel]\<rparr>)"
  using assms by (simp add: save_predictions_def)

theorem save_predictions_without_checkpoint_witness:
  "fs \<lparr>fs = Map.empty :: string \<rightharpoonup> (real list list, unit, unit) file_content,
       printed = [], weights = [[0, 0], [0, 0]], training_mode = True\<rparr>
      ''best_model.pt'' = None
   \<and> save_predictions ''best_model.pt'' (!)
        [[\<lparr>sample_x = 0, sample_fid = 10\<rparr>, \<lparr>sample_x = 1, sample_fid = 11\<rparr>]]
        [1, 2] [''Wheat'', ''Barley''] \<lparr>args_split = ''test'', args_target_dir = ''out''\<rparr>
        \<lparr>fs = Map.empty :: string \<rightharpoonup> (real list list, unit, unit) file_content,
         printed = [], weights = [[0, 0], [0, 0]], training_mode = True\<rparr>
      = Inr \<lparr>fs = Map.empty, printed = [NoBestModel], weights = [[0, 0], [0, 0]],
             training_mode = True\<rparr>"
proof -
  let ?w = "\<lparr>fs = Map.empty :: string \<rightharpoonup> (real list list, unit, unit) file_content,
      printed = [], weights = [[0, 0], [0, 0 :: real]], training_mode = True\<rparr>"
  have h: "fs ?w ''best_model.pt'' = None" by simp
  show ?thesis
    using save_predictions_without_checkpoint[OF h, of "(!)"
        "[[\<lparr>sample_x = 0, sample_fid = 10\<rparr>, \<lparr>sample_x = 1, sample_fid = 11\<rparr>]]"
        "[1, 2]" "[''Wheat'', ''Barley'']" "\<lparr>args_split = ''test'', args_target_dir = ''out''\<rparr>"]
    by simp
qed

lemma predict_batches_length:
  "predict_batches forward w loader label_ids label_names output_list = Inr out \<Longrightarrow>
   length out = length output_list + length loader"
  by (induction loader arbitrary: output_list)
     (auto split: list.splits sum.splits)

text \<open>
  Claim C2. The loop of \<open>save_predictions\<close> appends one record per batch, so the
  number of records is the number of batches, not of samples. On a loader with one batch
  of two samples (field ids 10 and 11) the exported file holds the record of the field 10
  alone.
\<close>

theorem save_predictions_first_of_batch:
  "save_predictions ''best_model.pt'' (!)
        [[\<lparr>sample_x = 0, sample_fid = 10\<rparr>, \<lparr>sample_x = 1, sample_fid = 11\<rparr>]]
        [1, 2] [''Wheat'', ''Barley''] \<lparr>args_split = ''test'', args_target_dir = ''out''\<rparr>
        \<lparr>fs = [''best_model.pt'' \<mapsto> CheckpointFile
                 \<lparr>ck_model_state = [[0, 0], [0, 0]], ck_optimizer_state = (), ck_epoch = 3,
                  ck_log = [] :: unit list\<rparr>],
         printed = [], weights = [[1, 0], [1, 0]], training_mode = True\<rparr>
      = Inr \<lparr>fs = [''best_model.pt'' \<mapsto> CheckpointFile
                 \<lparr>ck_model_state = [[0, 0], [0, 0]], ck_optimizer_state = (), ck_epoch = 3,
                  ck_log = []\<rparr>,
                  ''out/submission.json'' \<mapsto> PredictionsFile
                   [\<lparr>fid = 10, crop_id = 1, crop_name = ''Wheat'', crop_probs = [1 / 2, 1 / 2]\<rparr>]],
             printed = [Resuming ''best_model.pt'' 3, SubmissionSaved ''out/submission.json'',
                        FrameHead [\<lparr>fid = 10, crop_id = 1, crop_name = ''Wheat'',
                                    crop_probs = [1 / 2, 1 / 2]\<rparr>]],
             weights = [[0, 0], [0, 0]], training_mode = False\<rparr>"
  by (simp add: save_predictions_def softmax_def argmax_def item_def path_join_def Let_def)

section \<open>The loss needs full batches\<close>

lemma column_length: "column rows i = Inr c \<Longrightarrow> length c = length rows"
  by (auto simp: column_def split: if_splits)

lemma scatter_onehot_Inr:
  assumes "scatter_onehot B classes y_true = Inr oh"
  shows "length y_true \<le> B" and "length oh = B"
    and "list_all (\<lambda>y. 0 \<le> y \<and> y < int classes) y_true"
  using assms by (auto simp: scatter_onehot_def split: if_splits)

lemma sum_class_losses_first:
  assumes "sum_class_losses y_prob oh (i # rest) acc = Inr v"
  shows "length y_prob = length oh"
proof -
  obtain input where i: "column y_prob i = Inr input"
    using assms by (auto split: sum.splits)
  obtain target where t: "column oh i = Inr target"
    using assms i by (auto split: sum.splits)
  obtain l where "loss_bc input target = Inr l"
    using assms i t by (auto split: sum.splits)
  then have "length target = length input"
    by (auto simp: loss_bc_def split: if_splits)
  then show ?thesis using column_length[OF i] column_length[OF t] by simp
qed

lemma loss_defined_full_batch:
  assumes ok: "bin_cross_entr_each_crop logprobs y_true classes batch_size = Inr v"
    and n: "length logprobs = length y_true" and ne: "y_true \<noteq> []"
  shows "length y_true = batch_size"
proof -
  obtain oh where oh: "scatter_onehot batch_size classes y_true = Inr oh"
    and s: "sum_class_losses (map softmax logprobs) oh [0..<classes] 0 = Inr v"
    using ok by (auto simp: bin_cross_entr_each_crop_def split: sum.splits)
  obtain y ys where "y_true = y # ys" using ne by (cases y_true) auto
  then have "0 < classes" using scatter_onehot_Inr(3)[OF oh] by auto
  then have "[0..<classes] = 0 # [1..<classes]" by (simp add: upt_conv_Cons)
  then have "length (map softmax logprobs) = length oh"
    using s sum_class_losses_first by metis
  then show ?thesis using scatter_onehot_Inr(2)[OF oh] n by simp
qed

lemma chunks_Nil [simp]: "chunks B [] = []"
  by (subst chunks.simps) simp

lemma chunks_step: "0 < B \<Longrightarrow> xs \<noteq> [] \<Longrightarrow> chunks B xs = take B xs # chunks B (drop B xs)"
  by (subst chunks.simps) simp

lemma chunks_full:
  assumes B: "0 < B"
  shows "\<forall>b \<in> set (butlast (chunks B xs)). length b = B"
proof (induction xs rule: length_induct)
  case (1 xs)
  show ?case
  proof (cases "xs = []")
    case True
    then show ?thesis by simp
  next
    case False
    note st = chunks_step[OF B False]
    have shorter: "length (drop B xs) < length xs" using B False by simp
    have IH: "\<forall>b \<in> set (butlast (chunks B (drop B xs))). length b = B"
      using "1.IH" shorter by blast
    show ?thesis
    proof (cases "chunks B (drop B xs) = []")
      case True
      then show ?thesis unfolding st by simp
    next
      case ne: False
      then have "drop B xs \<noteq> []" by auto
      then have "length (take B xs) = B" by simp
      then show ?thesis unfolding st using IH ne by simp
    qed
  qed
qed

lemma chunks_last:
  assumes B: "0 < B"
  shows "chunks B xs \<noteq> [] \<Longrightarrow> length (last (chunks B xs)) \<le> B"
proof (induction xs rule: length_induct)
  case (1 xs)
  then have ne: "xs \<noteq> []" by auto
  note st = chunks_step[OF B ne]
  have shorter: "length (drop B xs) < length xs" using B ne by simp
  show ?case
  proof (cases "chunks B (drop B xs) = []")
    case True
    then show ?thesis unfolding st by simp
  next
    case False
    then have "length (last (chunks B (drop B xs))) \<le> B"
      using "1.IH" shorter by blast
    then show ?thesis unfolding st using False by simp
  qed
qed

lemma data_loader_drop_last:
  assumes "0 < batch_size"
  shows "\<exists>bs. data_loader batch_size True xs = Inr bs \<and> (\<forall>b \<in> set bs. length b = batch_size)"
proof -
  let ?cs = "chunks batch_size xs"
  show ?thesis
  proof (cases "?cs \<noteq> [] \<and> length (last ?cs) < batch_size")
    case True
    then show ?thesis using assms chunks_full[OF assms, of xs]
      by (simp add: data_loader_def Let_def)
  next
    case False
    have "length b = batch_size" if "b \<in> set ?cs" for b
    proof -
      have ne: "?cs \<noteq> []" using that by auto
      then have l: "length (last ?cs) = batch_size"
        using False chunks_last[OF assms ne] by simp
      have "?cs = butlast ?cs @ [last ?cs]" using ne by simp
      then have "set ?cs = set (butlast ?cs) \<union> {last ?cs}"
        by (metis list.set(1) list.set(2) set_append)
      then have "b \<in> set (butlast ?cs) \<or> b = last ?cs"
        using that by blast
      then show ?thesis using l chunks_full[OF assms, of xs] by auto
    qed
    then show ?thesis using assms False by (auto simp: data_loader_def Let_def)
  qed
qed

lemma sum_class_losses_ok:
  assumes "\<forall>i \<in> set ixs. list_all (\<lambda>r. i < length r) y_prob \<and> list_all (\<lambda>r. i < length r) oh"
    and "length y_prob = length oh"
  shows "\<exists>v. sum_class_losses y_prob oh ixs acc = Inr v"
  using assms
proof (induction ixs arbitrary: acc)
  case Nil
  then show ?case by simp
next
  case (Cons i ixs)
  have c1: "column y_prob i = Inr (map (\<lambda>r. r ! i) y_prob)"
    and c2: "column oh i = Inr (map (\<lambda>r. r ! i) oh)"
    using Cons.prems(1) by (simp_all add: column_def)
  obtain l where l: "loss_bc (map (\<lambda>r. r ! i) y_prob) (map (\<lambda>r. r ! i) oh) = Inr l"
    using Cons.prems(2) by (simp add: loss_bc_def)
  have "\<exists>v. sum_class_losses y_prob oh ixs (acc + l) = Inr v"
    using Cons.IH[of "acc + l"] Cons.prems by simp
  then show ?case by (simp add: c1 c2 l)
qed

lemma loss_defined_when_full:
  assumes "length logprobs = batch_size" and "length y_true = batch_size"
    and "list_all (\<lambda>y. 0 \<le> y \<and> y < int classes) y_true"
    and "list_all (\<lambda>r. classes \<le> length r) logprobs"
  shows "\<exists>v. bin_cross_entr_each_crop logprobs y_true classes batch_size = Inr v"
proof -
  define oh where "oh = map (\<lambda>i. map (\<lambda>c. if i < length y_true \<and> y_true ! i = int c then 1 else (0::real))
                            [0..<classes]) [0..<batch_size]"
  have sc: "scatter_onehot batch_size classes y_true = Inr oh"
    using assms(2,3) by (simp add: scatter_onehot_def oh_def)
  have w1: "list_all (\<lambda>r. i < length r) (map softmax logprobs)" if "i < classes" for i
    using assms(4) that by (auto simp: list_all_iff softmax_def)
  have w2: "list_all (\<lambda>r. i < length r) oh" if "i < classes" for i
    using that by (simp add: oh_def list_all_iff)
  have "length (map softmax logprobs) = length oh"
    using assms(1) by (simp add: oh_def)
  then have "\<exists>v. sum_class_losses (map softmax logprobs) oh [0..<classes] 0 = Inr v"
    using w1 w2 by (intro sum_class_losses_ok) auto
  then show ?thesis by (simp add: bin_cross_entr_each_crop_def sc)
qed

text \<open>
  Claim C10. \<open>bin_cross_entr_each_crop\<close> makes its one-hot target with
  \<open>args.batch_size\<close> rows. On a batch (of at least one sample, with as many rows of
  logits as labels) it returns a loss only when the batch has exactly \<open>args.batch_size\<close>
  samples: with more the \<open>scatter_\<close> raises, with fewer the first \<open>BCELoss\<close> does. On a
  batch of that size, with labels below \<open>classes\<close> and at least \<open>classes\<close> logits per
  sample, it does return one. A data loader with \<open>drop_last=True\<close> yields only batches of
  exactly \<open>batch_size\<close> samples.
\<close>

theorem loss_defined_only_on_full_batches:
  "(length logprobs = length y_true \<and> y_true \<noteq> [] \<and>
      bin_cross_entr_each_crop logprobs y_true classes batch_size = Inr v
      \<longrightarrow> length y_true = batch_size)
   \<and> (length logprobs = batch_size \<and> length y_true = batch_size \<and>
      list_all (\<lambda>y. 0 \<le> y \<and> y < int classes) y_true \<and>
      list_all (\<lambda>r. classes \<le> length r) logprobs
      \<longrightarrow> (\<exists>l. bin_cross_entr_each_crop logprobs y_true classes batch_size = Inr l))
   \<and> (0 < batch_size
      \<longrightarrow> (\<exists>bs. data_loader batch_size True xs = Inr bs \<and>
                 (\<forall>b \<in> set bs. length b = batch_size)))"
  using loss_defined_full_batch[of logprobs y_true classes batch_size v]
    loss_defined_when_full[of logprobs batch_size y_true classes]
    data_loader_drop_last[of batch_size xs]
  by blast

lemma upt_0_2: "[0..<2] = [0, 1]"
  by (simp add: upt_rec)

theorem loss_defined_only_on_full_batches_witness:
  "(\<exists>l. bin_cross_entr_each_crop [[0, 0], [0, 0]] [0, 1] 2 2 = Inr l)
   \<and> bin_cross_entr_each_crop [[0, 0]] [0] 2 2 = Inl ValueError
   \<and> bin_cross_entr_each_crop [[0, 0], [0, 0], [0, 0]] [0, 1, 1] 2 2 = Inl RuntimeError
   \<and> data_loader 2 True [10, 20, 30, 40, 50 :: nat] = Inr [[10, 20], [30, 40]]
   \<and> data_loader 2 False [10, 20, 30, 40, 50 :: nat] = Inr [[10, 20], [30, 40], [50]]"
proof -
  have a: "\<exists>l. bin_cross_entr_each_crop [[0, 0], [0, 0]] [0, 1] 2 2 = Inr l"
    using loss_defined_only_on_full_batches[where logprobs = "[[0, 0], [0, 0]]"
        and y_true = "[0, 1]" and classes = 2 and batch_size = 2 and v = 0
        and xs = "[10, 20, 30, 40, 50 :: nat]"]
    by simp
  have b: "bin_cross_entr_each_crop [[0, 0]] [0] 2 2 = Inl ValueError"
    by (simp add: bin_cross_entr_each_crop_def scatter_onehot_def upt_0_2 column_def
        softmax_def loss_bc_def)
  have c: "bin_cross_entr_each_crop [[0, 0], [0, 0], [0, 0]] [0, 1, 1] 2 2 = Inl RuntimeError"
    by (simp add: bin_cross_entr_each_crop_def scatter_onehot_def)
  have ch: "chunks 2 [10, 20, 30, 40, 50 :: nat] = [[10, 20], [30, 40], [50]]"
    by (simp add: chunks_step)
  have d: "data_loader 2 True [10, 20, 30, 40, 50 :: nat] = Inr [[10, 20], [30, 40]]"
    and e: "data_loader 2 False [10, 20, 30, 40, 50 :: nat] = Inr [[10, 20], [30, 40], [50]]"
    by (simp_all add: data_loader_def ch)
  show ?thesis using a b c d e by simp
qed

end
